theory Spec2Isabelle
  imports Main "HOL-Library.AList" "HOL-Library.Sublist" "HOL-Library.Word"
begin

section \<open>Text streams: \<open>std::getline\<close>, \<open>util::split\<close>, \<open>util::trim\<close>\<close>

text \<open>
  A \<open>std::string\<close> is a \<^typ>\<open>string\<close>. An input stream is the text that is still unread.
  \<open>std::getline(in, item, delim)\<close> fails exactly when nothing is left; otherwise it
  extracts the characters before the next delimiter and discards the delimiter.
\<close>

definition getline :: "char \<Rightarrow> string \<Rightarrow> (string \<times> string) option" where
  "getline delim s =
     (if s = [] then None
      else Some (takeWhile (\<lambda>c. c \<noteq> delim) s, drop 1 (dropWhile (\<lambda>c. c \<noteq> delim) s)))"

text \<open>The loop \<open>while (std::getline(ss, item, delim)) tokens.push_back(item)\<close>.\<close>

function read_items :: "char \<Rightarrow> string \<Rightarrow> string list" where
  "read_items delim s =
     (case getline delim s of
        None \<Rightarrow> []
      | Some (item, rest) \<Rightarrow> item # read_items delim rest)"
  by pat_completeness auto
termination
proof (relation "measure (\<lambda>(delim, s). length s)")
  show "wf (measure (\<lambda>(delim, s). length s))" by simp
next
  fix delim :: char and s :: string and x2 :: "string \<times> string" and item rest :: string
  assume "getline delim s = Some x2" and "(item, rest) = x2"
  then have g: "getline delim s = Some (item, rest)" by simp
  then have ne: "s \<noteq> []" and r: "rest = drop 1 (dropWhile (\<lambda>c. c \<noteq> delim) s)"
    by (auto simp: getline_def split: if_splits)
  have "length (dropWhile (\<lambda>c. c \<noteq> delim) s) \<le> length s"
    by (rule length_dropWhile_le)
  moreover have "dropWhile (\<lambda>c. c \<noteq> delim) s = s \<Longrightarrow> length rest < length s"
    using ne r by (cases s) auto
  moreover have "length rest \<le> length (dropWhile (\<lambda>c. c \<noteq> delim) s)"
    using r by simp
  moreover have "dropWhile (\<lambda>c. c \<noteq> delim) s \<noteq> s \<Longrightarrow>
      length (dropWhile (\<lambda>c. c \<noteq> delim) s) < length s"
  proof -
    assume d: "dropWhile (\<lambda>c. c \<noteq> delim) s \<noteq> s"
    have "length (takeWhile (\<lambda>c. c \<noteq> delim) s) + length (dropWhile (\<lambda>c. c \<noteq> delim) s) = length s"
      by (metis length_append takeWhile_dropWhile_id)
    moreover have "takeWhile (\<lambda>c. c \<noteq> delim) s \<noteq> []"
      using d by (cases s) (auto split: if_splits)
    ultimately show ?thesis by (cases "takeWhile (\<lambda>c. c \<noteq> delim) s") auto
  qed
  ultimately show "((delim, rest), (delim, s)) \<in> measure (\<lambda>(delim, s). length s)"
    by (cases "dropWhile (\<lambda>c. c \<noteq> delim) s = s") auto
qed

declare read_items.simps [simp del]

definition split :: "string \<Rightarrow> char \<Rightarrow> string list" where
  "split text delim = read_items delim text"

abbreviation NL :: char where "NL \<equiv> CHR 0x0A"
abbreviation TAB :: char where "TAB \<equiv> CHR 0x09"

text \<open>
  \<open>util::trim\<close>: the text from the first to the last character outside \<open>" \t\r\n"\<close>,
  empty when there is none.
\<close>

definition is_ws :: "char \<Rightarrow> bool" where
  "is_ws c \<longleftrightarrow> c = CHR '' '' \<or> c = TAB \<or> c = CHR 0x0D \<or> c = NL"

definition trim :: "string \<Rightarrow> string" where
  "trim text = rev (dropWhile is_ws (rev (dropWhile is_ws text)))"

section \<open>Hashing (\<open>hashing.cpp\<close>)\<close>

text \<open>
  \<open>crypto_hash_sha256\<close> belongs to libsodium, not to this repository: it is a parameter
  \<open>H\<close> of the model, giving for every input the contents of the array
  \<open>unsigned char hash[crypto_hash_sha256_BYTES]\<close> after the call. \<open>toHex\<close> is the
  repository's own code: two lower-case hexadecimal digits for each byte.
\<close>

type_synonym sha256 = "string \<Rightarrow> nat \<Rightarrow> 8 word"

definition crypto_hash_sha256_BYTES :: nat where
  "crypto_hash_sha256_BYTES = 32"

definition hex_digit :: "nat \<Rightarrow> char" where
  "hex_digit n = (if n < 16 then ''0123456789abcdef'' ! n else CHR ''?'')"

definition hex_byte :: "8 word \<Rightarrow> string" where
  "hex_byte b = [hex_digit (unat b div 16), hex_digit (unat b mod 16)]"

definition toHex :: "(nat \<Rightarrow> 8 word) \<Rightarrow> nat \<Rightarrow> string" where
  "toHex data len = concat (map (\<lambda>i. hex_byte (data i)) [0..<len])"

definition sha256Bytes :: "sha256 \<Rightarrow> string \<Rightarrow> string" where
  "sha256Bytes H data = toHex (H data) crypto_hash_sha256_BYTES"

definition sha256String :: "sha256 \<Rightarrow> string \<Rightarrow> string" where
  "sha256String H text = sha256Bytes H text"

section \<open>The filesystem\<close>

text \<open>
  The filesystem is a table from absolute paths (lists of names, from the root) to nodes:
  directories and regular files with their bytes. A \<open>std::filesystem::path\<close> value is
  the list of its components as written, not yet resolved: it may hold empty components,
  \<open>.\<close> and \<open>..\<close>. \<open>walk\<close> resolves it as the operating system does for \<open>open\<close> and
  \<open>stat\<close> (POSIX): every component is looked up in a directory, \<open>..\<close> leads to the
  parent and the root is its own parent.
\<close>

datatype node = Dir | File string

type_synonym path = "string list"

type_synonym filesys = "(path \<times> node) list"

definition lookup :: "filesys \<Rightarrow> path \<Rightarrow> node option" where
  "lookup fs p = map_of fs p"

fun components :: "string \<Rightarrow> string list" where
  "components [] = [[]]"
| "components (c # cs) =
     (if c = CHR ''/'' then [] # components cs
      else (case components cs of [] \<Rightarrow> [[c]] | t # ts \<Rightarrow> (c # t) # ts))"

text \<open>\<open>p / s\<close> for a path \<open>p\<close> and a string \<open>s\<close>: an absolute \<open>s\<close> replaces \<open>p\<close>.\<close>

definition slash :: "path \<Rightarrow> string \<Rightarrow> path" where
  "slash p s = (if s \<noteq> [] \<and> hd s = CHR ''/'' then components s else p @ components s)"

fun walk :: "filesys \<Rightarrow> path \<Rightarrow> string list \<Rightarrow> path option" where
  "walk fs cur [] = Some cur"
| "walk fs cur (c # cs) =
     (if lookup fs cur \<noteq> Some Dir then None
      else if c = [] \<or> c = ''.'' then walk fs cur cs
      else if c = ''..'' then walk fs (butlast cur) cs
      else walk fs (cur @ [c]) cs)"

definition resolve :: "filesys \<Rightarrow> path \<Rightarrow> path option" where
  "resolve fs p = walk fs [] p"

text \<open>\<open>fs::exists\<close>.\<close>

definition fs_exists :: "filesys \<Rightarrow> path \<Rightarrow> bool" where
  "fs_exists fs p = (case resolve fs p of None \<Rightarrow> False | Some q \<Rightarrow> lookup fs q \<noteq> None)"

text \<open>
  An input stream on a path: its text when the path leads to a regular file. On a
  directory or a missing file no read succeeds (\<open>None\<close>).
\<close>

definition read_file :: "filesys \<Rightarrow> path \<Rightarrow> string option" where
  "read_file fs p =
     (case resolve fs p of
        None \<Rightarrow> None
      | Some q \<Rightarrow> (case lookup fs q of Some (File c) \<Rightarrow> Some c | _ \<Rightarrow> None))"

text \<open>
  \<open>std::ofstream out(p, trunc); out << c\<close>: the file is created or replaced. Opening
  fails (\<open>None\<close>, nothing written) when the path does not resolve or leads to a
  directory. With \<open>std::ios::app\<close> the text is added at the end.
\<close>

definition write_file :: "filesys \<Rightarrow> path \<Rightarrow> string \<Rightarrow> filesys option" where
  "write_file fs p c =
     (case resolve fs p of
        None \<Rightarrow> None
      | Some q \<Rightarrow> if lookup fs q = Some Dir then None else Some (AList.update q (File c) fs))"

definition append_file :: "filesys \<Rightarrow> path \<Rightarrow> string \<Rightarrow> filesys option" where
  "append_file fs p c =
     (case resolve fs p of
        None \<Rightarrow> None
      | Some q \<Rightarrow>
          (case lookup fs q of
             Some Dir \<Rightarrow> None
           | Some (File old) \<Rightarrow> Some (AList.update q (File (old @ c)) fs)
           | None \<Rightarrow> Some (AList.update q (File c) fs)))"

text \<open>A stream that failed to open is written to without effect.\<close>

definition or_unchanged :: "filesys \<Rightarrow> filesys option \<Rightarrow> filesys" where
  "or_unchanged fs r = (case r of None \<Rightarrow> fs | Some fs' \<Rightarrow> fs')"

text \<open>
  \<open>fs::create_directories\<close>: every missing directory on the way is made; it throws
  (\<open>None\<close>) when a regular file stands in the way.
\<close>

fun mkdirs :: "filesys \<Rightarrow> path \<Rightarrow> string list \<Rightarrow> filesys option" where
  "mkdirs fs cur [] =
     (case lookup fs cur of
        Some (File c) \<Rightarrow> None
      | Some Dir \<Rightarrow> Some fs
      | None \<Rightarrow> Some (AList.update cur Dir fs))"
| "mkdirs fs cur (c # cs) =
     (case lookup fs cur of
        Some (File x) \<Rightarrow> None
      | r \<Rightarrow>
          (let fs' = (if r = None then AList.update cur Dir fs else fs) in
           if c = [] \<or> c = ''.'' then mkdirs fs' cur cs
           else if c = ''..'' then mkdirs fs' (butlast cur) cs
           else mkdirs fs' (cur @ [c]) cs))"

definition create_directories :: "filesys \<Rightarrow> path \<Rightarrow> filesys option" where
  "create_directories fs p = mkdirs fs [] p"

text \<open>\<open>fs::remove_all\<close>: the node and everything below it.\<close>

definition remove_all :: "filesys \<Rightarrow> path \<Rightarrow> filesys" where
  "remove_all fs p =
     (case resolve fs p of
        None \<Rightarrow> fs
      | Some q \<Rightarrow> filter (\<lambda>(k, n). \<not> prefix q k) fs)"

text \<open>
  \<open>fs::copy_file\<close>: it throws (\<open>None\<close>) unless the source is a regular file and the
  target can be created; an existing target is replaced only with
  \<open>copy_options::overwrite_existing\<close>.
\<close>

definition copy_file :: "filesys \<Rightarrow> path \<Rightarrow> path \<Rightarrow> bool \<Rightarrow> filesys option" where
  "copy_file fs from to overwrite_existing =
     (case (resolve fs from, resolve fs to) of
        (Some f, Some t) \<Rightarrow>
          (case lookup fs f of
             Some (File c) \<Rightarrow>
               (case lookup fs t of
                  None \<Rightarrow> Some (AList.update t (File c) fs)
                | Some (File old) \<Rightarrow>
                    if overwrite_existing then Some (AList.update t (File c) fs) else None
                | Some Dir \<Rightarrow> None)
           | _ \<Rightarrow> None)
      | _ \<Rightarrow> None)"

section \<open>The repository service (\<open>repo_service.cpp\<close>)\<close>

text \<open>
  A call that reports failure gives its message; \<open>Caught\<close> stands for the text of an
  exception (\<open>ex.what()\<close>) that the call caught and reported, \<open>Thrown\<close> for an exception
  that leaves the call.
\<close>

datatype failure = Msg string | Caught | Thrown

abbreviation QUOTE :: char where "QUOTE \<equiv> CHR 0x27"

record CommitRecord =
  id_rec :: string
  parent :: string
  author :: string
  timestamp :: string
  message :: string
  branch :: string
  files :: "(string \<times> string) list"

definition empty_record :: CommitRecord where
  "empty_record = \<lparr>id_rec = [], parent = [], author = [], timestamp = [], message = [],
     branch = [], files = []\<rparr>"

definition HEAD_file :: "path \<Rightarrow> path" where
  "HEAD_file repoRoot = repoRoot @ [''.glite'', ''HEAD'']"

definition index_file :: "path \<Rightarrow> path" where
  "index_file repoRoot = repoRoot @ [''.glite'', ''index'']"

definition log_file :: "path \<Rightarrow> path" where
  "log_file repoRoot = repoRoot @ [''.glite'', ''log'']"

definition objects_dir :: "path \<Rightarrow> path" where
  "objects_dir repoRoot = repoRoot @ [''.glite'', ''objects'']"

definition heads_dir :: "path \<Rightarrow> path" where
  "heads_dir repoRoot = repoRoot @ [''.glite'', ''refs'', ''heads'']"

definition tags_dir :: "path \<Rightarrow> path" where
  "tags_dir repoRoot = repoRoot @ [''.glite'', ''refs'', ''tags'']"

definition workspace_dir :: "path \<Rightarrow> path" where
  "workspace_dir repoRoot = repoRoot @ [''workspace'']"

definition first_line :: "filesys \<Rightarrow> path \<Rightarrow> string option" where
  "first_line fs p =
     (case read_file fs p of
        None \<Rightarrow> None
      | Some content \<Rightarrow> map_option fst (getline NL content))"

definition currentBranch :: "filesys \<Rightarrow> path \<Rightarrow> string" where
  "currentBranch fs repoRoot =
     (case first_line fs (HEAD_file repoRoot) of
        None \<Rightarrow> ''main''
      | Some line0 \<Rightarrow>
          (let line = trim line0 in
           if take 4 line = ''ref:'' then trim (drop 4 line) else ''main''))"

definition setCurrentBranch :: "filesys \<Rightarrow> path \<Rightarrow> string \<Rightarrow> filesys" where
  "setCurrentBranch fs repoRoot br =
     or_unchanged fs (write_file fs (HEAD_file repoRoot) (''ref: '' @ br @ [NL]))"

definition branchHead :: "filesys \<Rightarrow> path \<Rightarrow> string \<Rightarrow> string" where
  "branchHead fs repoRoot br =
     (case first_line fs (slash (heads_dir repoRoot) br) of
        None \<Rightarrow> []
      | Some line \<Rightarrow> trim line)"

definition updateBranchHead :: "filesys \<Rightarrow> path \<Rightarrow> string \<Rightarrow> string \<Rightarrow> filesys \<times> bool" where
  "updateBranchHead fs repoRoot br commitId =
     (case write_file fs (slash (heads_dir repoRoot) br) (commitId @ [NL]) of
        None \<Rightarrow> (fs, False)
      | Some fs' \<Rightarrow> (fs', True))"

fun index_entries :: "string list \<Rightarrow> (string \<times> string) list" where
  "index_entries [] = []"
| "index_entries (line # lines) =
     (if line = [] then index_entries lines
      else (case split line TAB of
              [a, b] \<Rightarrow> (a, b) # index_entries lines
            | _ \<Rightarrow> index_entries lines))"

definition readIndex :: "filesys \<Rightarrow> path \<Rightarrow> (string \<times> string) list" where
  "readIndex fs repoRoot =
     (case read_file fs (index_file repoRoot) of
        None \<Rightarrow> []
      | Some content \<Rightarrow> index_entries (read_items NL content))"

definition entry_lines :: "(string \<times> string) list \<Rightarrow> string" where
  "entry_lines entries = concat (map (\<lambda>(p, b). p @ [TAB] @ b @ [NL]) entries)"

definition writeIndex :: "filesys \<Rightarrow> path \<Rightarrow> (string \<times> string) list \<Rightarrow> filesys" where
  "writeIndex fs repoRoot entries =
     or_unchanged fs (write_file fs (index_file repoRoot) (entry_lines entries))"

definition appendLog :: "filesys \<Rightarrow> path \<Rightarrow> CommitRecord \<Rightarrow> filesys" where
  "appendLog fs repoRoot record =
     or_unchanged fs (append_file fs (log_file repoRoot)
       (id_rec record @ [TAB] @ branch record @ [TAB] @ timestamp record @ [TAB]
          @ message record @ [NL]))"

text \<open>
  \<open>RepoService::commit\<close>. The clock (\<open>util::timestamp()\<close>) is the parameter \<open>ts\<close>. The
  result is the error text, or the filesystem after the call with the record handed
  back. No statement of the \<open>try\<close> block throws: a stream that fails to open sets its
  fail bit, \<open>updateBranchHead\<close> reports it by \<open>false\<close>, and \<open>commit\<close> drops it.
\<close>

definition commit_body :: "string \<Rightarrow> string \<Rightarrow> string \<Rightarrow> string \<Rightarrow> string
    \<Rightarrow> (string \<times> string) list \<Rightarrow> string" where
  "commit_body auth ts br par msg indexEntries =
     ''author='' @ auth @ [NL] @
     ''timestamp='' @ ts @ [NL] @
     ''branch='' @ br @ [NL] @
     ''parent='' @ (if par = [] then ''null'' else par) @ [NL] @
     ''message='' @ msg @ [NL] @
     ''files:'' @ [NL] @
     entry_lines indexEntries"

definition commit :: "sha256 \<Rightarrow> string \<Rightarrow> filesys \<Rightarrow> path \<Rightarrow> string \<Rightarrow> string
    \<Rightarrow> failure + (filesys \<times> CommitRecord)" where
  "commit H ts fs repoRoot auth msg =
     (let indexEntries = readIndex fs repoRoot in
      if indexEntries = [] then Inl (Msg ''Nothing to commit (index empty).'')
      else
        let br = currentBranch fs repoRoot;
            par = branchHead fs repoRoot br;
            bodyContent = commit_body auth ts br par msg indexEntries;
            commitId = sha256String H bodyContent;
            commitFile = ''id='' @ commitId @ [NL] @ bodyContent;
            fs1 = or_unchanged fs (write_file fs (slash (objects_dir repoRoot) commitId) commitFile);
            fs2 = fst (updateBranchHead fs1 repoRoot br commitId);
            fs3 = writeIndex fs2 repoRoot [];
            record = \<lparr>id_rec = commitId, parent = par, author = auth, timestamp = ts,
              message = msg, branch = br, files = indexEntries\<rparr>
        in Inr (appendLog fs3 repoRoot record, record))"

definition createBranch :: "filesys \<Rightarrow> path \<Rightarrow> string \<Rightarrow> failure + filesys" where
  "createBranch fs repoRoot branchName =
     (let p = slash (heads_dir repoRoot) branchName in
      if fs_exists fs p then Inl (Msg ''Branch already exists.'')
      else
        let current = currentBranch fs repoRoot;
            head = branchHead fs repoRoot current
        in Inr (or_unchanged fs (write_file fs p (head @ [NL]))))"

text \<open>\<open>RepoService::readCommit\<close>: the loop over the lines of the object file.\<close>

fun readCommit_lines :: "string list \<Rightarrow> bool \<Rightarrow> CommitRecord \<Rightarrow> CommitRecord" where
  "readCommit_lines [] filesSection record = record"
| "readCommit_lines (line # lines) filesSection record =
     (if take 3 line = ''id='' then
        readCommit_lines lines filesSection (record\<lparr>id_rec := drop 3 line\<rparr>)
      else if line = ''files:'' then readCommit_lines lines True record
      else if \<not> filesSection then
        (if CHR ''='' \<notin> set line then readCommit_lines lines filesSection record
         else
           let key = takeWhile (\<lambda>c. c \<noteq> CHR ''='') line;
               val = drop 1 (dropWhile (\<lambda>c. c \<noteq> CHR ''='') line)
           in readCommit_lines lines filesSection
                (if key = ''author'' then record\<lparr>author := val\<rparr>
                 else if key = ''timestamp'' then record\<lparr>timestamp := val\<rparr>
                 else if key = ''branch'' then record\<lparr>branch := val\<rparr>
                 else if key = ''parent'' then
                   record\<lparr>parent := (if val = ''null'' then [] else val)\<rparr>
                 else if key = ''message'' then record\<lparr>message := val\<rparr>
                 else record))
      else
        (case split line TAB of
           [a, b] \<Rightarrow> readCommit_lines lines filesSection (record\<lparr>files := files record @ [(a, b)]\<rparr>)
         | _ \<Rightarrow> readCommit_lines lines filesSection record))"

definition readCommit :: "filesys \<Rightarrow> path \<Rightarrow> string \<Rightarrow> CommitRecord" where
  "readCommit fs repoRoot commitId =
     (case read_file fs (slash (objects_dir repoRoot) commitId) of
        None \<Rightarrow> empty_record\<lparr>id_rec := commitId\<rparr>
      | Some content \<Rightarrow>
          readCommit_lines (read_items NL content) False (empty_record\<lparr>id_rec := commitId\<rparr>))"





text \<open>
  The object text that \<open>mergeBranch\<close> and \<open>revertCommit\<close> write: \<open>key: value\<close> lines,
  then the file lines.
\<close>

definition colon_body :: "CommitRecord \<Rightarrow> string" where
  "colon_body r =
     ''parent: '' @ (if parent r = [] then ''null'' else parent r) @ [NL] @
     ''author: '' @ author r @ [NL] @
     ''timestamp: '' @ timestamp r @ [NL] @
     ''branch: '' @ branch r @ [NL] @
     ''message: '' @ message r @ [NL] @
     entry_lines (files r)"

definition colon_record :: "CommitRecord \<Rightarrow> string" where
  "colon_record r = ''id: '' @ id_rec r @ [NL] @ colon_body r"

text \<open>
  \<open>RepoService::mergeBranch\<close> reads the clock twice: \<open>ts1\<close> goes into the id, \<open>ts2\<close> into
  the record.
\<close>

definition mergeRecord :: "sha256 \<Rightarrow> string \<Rightarrow> string \<Rightarrow> filesys \<Rightarrow> path \<Rightarrow> string
    \<Rightarrow> CommitRecord" where
  "mergeRecord H ts1 ts2 fs repoRoot br =
     (let current = currentBranch fs repoRoot;
          branchHeadId = branchHead fs repoRoot br;
          currentHeadId = branchHead fs repoRoot current
      in \<lparr>id_rec = sha256String H (branchHeadId @ currentHeadId @ ts1),
          parent = currentHeadId,
          author = ''merge'',
          timestamp = ts2,
          message = ''Merge branch '' @ [QUOTE] @ br @ [QUOTE] @ '' into '' @ [QUOTE] @ current
            @ [QUOTE],
          branch = current,
          files = files (readCommit fs repoRoot branchHeadId)\<rparr>)"

text \<open>
  The tail that \<open>mergeBranch\<close> and \<open>revertCommit\<close> share word for word: the object is
  written, the head of the current branch is updated (the result of
  \<open>updateBranchHead\<close> is dropped), the log line is added.
\<close>

definition write_record :: "filesys \<Rightarrow> path \<Rightarrow> string \<Rightarrow> CommitRecord \<Rightarrow> filesys" where
  "write_record fs repoRoot current r =
     (let fs1 = or_unchanged fs
            (write_file fs (slash (objects_dir repoRoot) (id_rec r)) (colon_record r));
          fs2 = fst (updateBranchHead fs1 repoRoot current (id_rec r))
      in appendLog fs2 repoRoot r)"

definition mergeBranch :: "sha256 \<Rightarrow> string \<Rightarrow> string \<Rightarrow> filesys \<Rightarrow> path \<Rightarrow> string
    \<Rightarrow> failure + filesys" where
  "mergeBranch H ts1 ts2 fs repoRoot br =
     (let current = currentBranch fs repoRoot in
      if current = br then Inl (Msg ''Cannot merge branch into itself.'')
      else if branchHead fs repoRoot br = [] then
        Inl (Msg (''Branch '' @ [QUOTE] @ br @ [QUOTE] @ '' has no commits.''))
      else Inr (write_record fs repoRoot current (mergeRecord H ts1 ts2 fs repoRoot br)))"

definition rebaseBranch :: "filesys \<Rightarrow> path \<Rightarrow> string \<Rightarrow> failure + filesys" where
  "rebaseBranch fs repoRoot br =
     (let current = currentBranch fs repoRoot in
      if current = br then Inl (Msg ''Cannot rebase branch onto itself.'')
      else
        let branchHeadId = branchHead fs repoRoot br in
        if branchHeadId = [] then
          Inl (Msg (''Branch '' @ [QUOTE] @ br @ [QUOTE] @ '' has no commits.''))
        else Inr (fst (updateBranchHead fs repoRoot current branchHeadId)))"

definition createTag :: "filesys \<Rightarrow> path \<Rightarrow> string \<Rightarrow> failure + filesys" where
  "createTag fs repoRoot tagName =
     (case create_directories fs (tags_dir repoRoot) of
        None \<Rightarrow> Inl Thrown
      | Some fs1 \<Rightarrow>
          let tagFile = slash (tags_dir repoRoot) tagName in
          if fs_exists fs1 tagFile then
            Inl (Msg (''Tag '' @ [QUOTE] @ tagName @ [QUOTE] @ '' already exists.''))
          else
            let currentHead = branchHead fs1 repoRoot (currentBranch fs1 repoRoot) in
            if currentHead = [] then Inl (Msg ''No commits to tag.'')
            else Inr (or_unchanged fs1 (write_file fs1 tagFile (currentHead @ [NL]))))"



section \<open>The storage layout (\<open>storage_manager.cpp\<close>)\<close>

definition repoPath :: "path \<Rightarrow> string \<Rightarrow> string \<Rightarrow> path" where
  "repoPath root owner repo = slash (slash root owner) repo"

definition repoExists :: "filesys \<Rightarrow> path \<Rightarrow> string \<Rightarrow> string \<Rightarrow> bool" where
  "repoExists fs root owner repo = fs_exists fs (repoPath root owner repo)"

text \<open>\<open>StorageManager::writeFile\<close> does not look at the state of its stream.\<close>

definition writeFile :: "filesys \<Rightarrow> path \<Rightarrow> string \<Rightarrow> filesys" where
  "writeFile fs p content = or_unchanged fs (write_file fs p content)"

definition createRepo :: "string \<Rightarrow> filesys \<Rightarrow> path \<Rightarrow> string \<Rightarrow> string \<Rightarrow> failure + filesys" where
  "createRepo ts fs root owner repo =
     (let repoRoot = repoPath root owner repo in
      if fs_exists fs repoRoot then Inl (Msg ''Repository already exists.'')
      else
        (case create_directories fs (objects_dir repoRoot) of
           None \<Rightarrow> Inl Caught
         | Some fs1 \<Rightarrow>
        (case create_directories fs1 (heads_dir repoRoot) of
           None \<Rightarrow> Inl Caught
         | Some fs2 \<Rightarrow>
        (case create_directories fs2 (workspace_dir repoRoot) of
           None \<Rightarrow> Inl Caught
         | Some fs3 \<Rightarrow>
             let fs4 = writeFile fs3 (HEAD_file repoRoot) (''ref: main'' @ [NL]);
                 fs5 = writeFile fs4 (heads_dir repoRoot @ [''main'']) [];
                 fs6 = writeFile fs5 (index_file repoRoot) [];
                 fs7 = writeFile fs6 (repoRoot @ [''.glite'', ''config''])
                         (''name='' @ repo @ [NL] @ ''owner='' @ owner @ [NL]
                            @ ''visibility=private'' @ [NL] @ ''created='' @ ts @ [NL])
             in Inr (writeFile fs7 (log_file repoRoot) [])))))"

section \<open>Well-formed repositories\<close>

text \<open>
  A file name: one path component that names an entry of a directory. The empty string,
  \<open>.\<close>, \<open>..\<close> and a string with a separator are paths to somewhere else.
\<close>

definition file_name :: "string \<Rightarrow> bool" where
  "file_name n \<longleftrightarrow> n \<noteq> [] \<and> n \<noteq> ''.'' \<and> n \<noteq> ''..'' \<and> CHR ''/'' \<notin> set n"

text \<open>A resolved path to a directory: file names only, each prefix a directory.\<close>

definition dir_path :: "filesys \<Rightarrow> path \<Rightarrow> bool" where
  "dir_path fs p \<longleftrightarrow>
     list_all file_name p \<and> list_all (\<lambda>q. lookup fs q = Some Dir) (prefixes p)"

text \<open>A directory without subdirectories.\<close>

definition flat_dir :: "filesys \<Rightarrow> path \<Rightarrow> bool" where
  "flat_dir fs d \<longleftrightarrow> lookup fs d = Some Dir \<and> (\<forall>n. lookup fs (d @ [n]) \<noteq> Some Dir)"

text \<open>
  The skeleton of a repository (\<open>createRepo\<close> makes it): the directories \<open>.glite\<close>,
  \<open>.glite/objects\<close>, \<open>.glite/refs\<close> and \<open>.glite/refs/heads\<close>, the last two holding
  files only, and no directory in the place of \<open>HEAD\<close>, \<open>index\<close> or \<open>log\<close>.
\<close>

definition repo_skeleton :: "filesys \<Rightarrow> path \<Rightarrow> bool" where
  "repo_skeleton fs repoRoot \<longleftrightarrow>
     dir_path fs (repoRoot @ [''.glite'', ''refs''])
     \<and> flat_dir fs (objects_dir repoRoot)
     \<and> flat_dir fs (heads_dir repoRoot)
     \<and> lookup fs (HEAD_file repoRoot) \<noteq> Some Dir
     \<and> lookup fs (index_file repoRoot) \<noteq> Some Dir
     \<and> lookup fs (log_file repoRoot) \<noteq> Some Dir"

definition file_text :: "filesys \<Rightarrow> path \<Rightarrow> string" where
  "file_text fs p = (case lookup fs p of Some (File c) \<Rightarrow> c | _ \<Rightarrow> [])"

definition log_line :: "CommitRecord \<Rightarrow> string" where
  "log_line r = id_rec r @ [TAB] @ branch r @ [TAB] @ timestamp r @ [TAB] @ message r"

section \<open>Example states\<close>

text \<open>
  A stand-in for the digest in the examples: every byte of the array is the length of
  the text (modulo 256).
\<close>

definition length_hash :: sha256 where
  "length_hash = (\<lambda>text i. of_nat (length text))"

text \<open>
  A repository at the root of the filesystem whose \<open>HEAD\<close> names the branch \<open>br\<close>, with
  the branch \<open>main\<close> without commits and one staged file.
\<close>

definition staged_repo :: "string \<Rightarrow> filesys" where
  "staged_repo br =
     [([], Dir),
      ([''.glite''], Dir),
      ([''.glite'', ''objects''], Dir),
      ([''.glite'', ''refs''], Dir),
      ([''.glite'', ''refs'', ''heads''], Dir),
      ([''workspace''], Dir),
      ([''.glite'', ''HEAD''], File (''ref: '' @ br @ [NL])),
      ([''.glite'', ''refs'', ''heads'', ''main''], File []),
      ([''.glite'', ''index''], File (''a.txt'' @ [TAB] @ ''b1'' @ [NL])),
      ([''.glite'', ''log''], File [])]"

text \<open>
  A repository at the root of the filesystem whose \<open>HEAD\<close> names \<open>cur\<close>: the branch
  \<open>main\<close> has no commits, the branch \<open>feature\<close> has the commit \<open>c1\<close>, made from an index
  that held the one path \<open>p\<close>.
\<close>

definition branched_repo :: "string \<Rightarrow> string \<Rightarrow> filesys" where
  "branched_repo cur p =
     [([], Dir),
      ([''.glite''], Dir),
      ([''.glite'', ''objects''], Dir),
      ([''.glite'', ''refs''], Dir),
      ([''.glite'', ''refs'', ''heads''], Dir),
      ([''workspace''], Dir),
      ([''.glite'', ''HEAD''], File (''ref: '' @ cur @ [NL])),
      ([''.glite'', ''refs'', ''heads'', ''main''], File []),
      ([''.glite'', ''refs'', ''heads'', ''feature''], File (''c1'' @ [NL])),
      ([''.glite'', ''objects'', ''c1''],
         File (''id=c1'' @ [NL] @ commit_body ''bob'' ''t0'' ''feature'' [] ''work'' [(p, ''b1'')])),
      ([''.glite'', ''index''], File []),
      ([''.glite'', ''log''], File [])]"

text \<open>
  The repository \<open>branched_repo ''main'' ''a.txt''\<close> after \<open>feature\<close> was merged into
  \<open>main\<close> (clock texts \<open>t1\<close>, \<open>t2\<close>) and \<open>feature\<close> was checked out: the head of \<open>main\<close>
  is the merge commit, whose object lists \<open>a.txt\<close>.
\<close>

definition merged_repo :: filesys where
  "merged_repo =
     (case mergeBranch length_hash ''t1'' ''t2'' (branched_repo ''main'' ''a.txt'') [] ''feature'' of
        Inl e \<Rightarrow> branched_repo ''main'' ''a.txt''
      | Inr fs \<Rightarrow> setCurrentBranch fs [] ''feature'')"

section \<open>Notions for the commit parser\<close>


text \<open>
  A path that \<open>readCommit\<close> takes for a header when it stands at the start of a line
  outside the files section: it begins with \<open>id=\<close>, or one of the five keys stands
  before its first \<open>=\<close>.
\<close>

definition header_like :: "string \<Rightarrow> bool" where
  "header_like p \<longleftrightarrow>
     take 3 p = ''id='' \<or>
     (CHR ''='' \<in> set p \<and>
      takeWhile (\<lambda>c. c \<noteq> CHR ''='') p
        \<in> {''author'', ''timestamp'', ''branch'', ''parent'', ''message''})"

text \<open>A line on which \<open>readCommit\<close> changes nothing while it is outside the files section.\<close>

definition inert :: "string \<Rightarrow> bool" where
  "inert line \<longleftrightarrow>
     take 3 line \<noteq> ''id='' \<and> line \<noteq> ''files:'' \<and>
     (CHR ''='' \<in> set line \<longrightarrow>
      takeWhile (\<lambda>c. c \<noteq> CHR ''='') line
        \<notin> {''author'', ''timestamp'', ''branch'', ''parent'', ''message''})"

text \<open>A record whose message and file entries hold no line break.\<close>

definition single_lines :: "CommitRecord \<Rightarrow> bool" where
  "single_lines r \<longleftrightarrow>
     NL \<notin> set (message r) \<and> (\<forall>(p, b)\<in>set (files r). NL \<notin> set p \<and> NL \<notin> set b)"

section \<open>Staging (\<open>RepoService::addFile\<close>)\<close>

text \<open>
  \<open>hashing::sha256File\<close> throws (\<open>None\<close>) when the file cannot be read; \<open>addFile\<close>
  catches it and reports the text of the exception.
\<close>

definition sha256File :: "sha256 \<Rightarrow> filesys \<Rightarrow> path \<Rightarrow> string option" where
  "sha256File H fs p = map_option (sha256Bytes H) (read_file fs p)"

text \<open>
  The loop over the index entries: every entry of the path gets the new blob id; the
  flag \<open>replaced\<close> tells whether there was one.
\<close>

fun replace_blob :: "(string \<times> string) list \<Rightarrow> string \<Rightarrow> string
    \<Rightarrow> (string \<times> string) list \<times> bool" where
  "replace_blob [] relativePath blobId = ([], False)"
| "replace_blob ((p, b) # entries) relativePath blobId =
     (let (entries', replaced) = replace_blob entries relativePath blobId in
      if p = relativePath then ((p, blobId) # entries', True)
      else ((p, b) # entries', replaced))"

definition staged_entries :: "(string \<times> string) list \<Rightarrow> string \<Rightarrow> string
    \<Rightarrow> (string \<times> string) list" where
  "staged_entries entries relativePath blobId =
     (let (entries', replaced) = replace_blob entries relativePath blobId in
      if replaced then entries' else entries' @ [(relativePath, blobId)])"

definition addFile :: "sha256 \<Rightarrow> filesys \<Rightarrow> path \<Rightarrow> string \<Rightarrow> failure + filesys" where
  "addFile H fs repoRoot relativePath =
     (let source = slash (workspace_dir repoRoot) relativePath in
      if \<not> fs_exists fs source then Inl (Msg ''File not found in workspace.'')
      else
        (case sha256File H fs source of
           None \<Rightarrow> Inl Caught
         | Some blobId \<Rightarrow>
             let objectPath = slash (objects_dir repoRoot) blobId in
             (case (if \<not> fs_exists fs objectPath then copy_file fs source objectPath False
                    else Some fs) of
                None \<Rightarrow> Inl Caught
              | Some fs1 \<Rightarrow>
                  Inr (writeIndex fs1 repoRoot
                         (staged_entries (readIndex fs1 repoRoot) relativePath blobId)))))"

section \<open>Comparing two runs\<close>

text \<open>Two filesystems that differ at most in the node of the path \<open>h\<close>.\<close>

definition same_except :: "path \<Rightarrow> filesys \<Rightarrow> filesys \<Rightarrow> bool" where
  "same_except h a b \<longleftrightarrow> (\<forall>p. p \<noteq> h \<longrightarrow> lookup a p = lookup b p)"

text \<open>
  Two calls behave alike up to \<open>h\<close>: both fail with the same report, or both succeed
  and leave filesystems that differ at most in \<open>h\<close>.
\<close>

definition agree :: "path \<Rightarrow> failure + filesys \<Rightarrow> failure + filesys \<Rightarrow> bool" where
  "agree h x y =
     (case x of
        Inl e \<Rightarrow> y = Inl e
      | Inr a \<Rightarrow> (case y of Inl e \<Rightarrow> False | Inr b \<Rightarrow> same_except h a b))"

text \<open>The repository \<open>branched_repo\<close> after its \<open>HEAD\<close> file was removed.\<close>

definition headless_repo :: filesys where
  "headless_repo = AList.delete [''.glite'', ''HEAD''] (branched_repo ''main'' ''a.txt'')"

text \<open>The repository \<open>staged_repo\<close> with a \<open>HEAD\<close> file whose line starts with a blank.\<close>

definition indented_head_repo :: filesys where
  "indented_head_repo =
     AList.update [''.glite'', ''HEAD''] (File ('' ref: dev'' @ [NL])) (staged_repo ''main'')"

section \<open>Storage: visibility (\<open>storage_manager.cpp\<close>)\<close>

text \<open>
  \<open>StorageManager::parseKeyValueFile\<close>: the loop over the lines fills a map; a later
  line of a key replaces an earlier one.
\<close>

fun parseKeyValue_lines :: "string list \<Rightarrow> (string \<rightharpoonup> string) \<Rightarrow> (string \<rightharpoonup> string)" where
  "parseKeyValue_lines [] kv = kv"
| "parseKeyValue_lines (line # lines) kv =
     (if line = [] then parseKeyValue_lines lines kv
      else if CHR ''='' \<notin> set line then parseKeyValue_lines lines kv
      else parseKeyValue_lines lines
             (kv(takeWhile (\<lambda>c. c \<noteq> CHR ''='') line
                   \<mapsto> drop 1 (dropWhile (\<lambda>c. c \<noteq> CHR ''='') line))))"

definition parseKeyValueFile :: "filesys \<Rightarrow> path \<Rightarrow> (string \<rightharpoonup> string)" where
  "parseKeyValueFile fs p =
     (case read_file fs p of
        None \<Rightarrow> Map.empty
      | Some content \<Rightarrow> parseKeyValue_lines (read_items NL content) Map.empty)"

definition getVisibility :: "filesys \<Rightarrow> path \<Rightarrow> string \<Rightarrow> string \<Rightarrow> string" where
  "getVisibility fs root owner repo =
     (let cfg = repoPath root owner repo @ [''.glite'', ''config''] in
      if \<not> fs_exists fs cfg then ''private''
      else (case parseKeyValueFile fs cfg ''visibility'' of
              None \<Rightarrow> ''private''
            | Some v \<Rightarrow> v))"

section \<open>The application (\<open>gitlite_app.cpp\<close>)\<close>

record User =
  username :: string
  passwordHash :: string
  role :: string

text \<open>
  The state the handlers work on: the session, the filesystem with the storage root and
  the current directory, and what \<open>loadUsers\<close> and \<open>loadPermissions\<close> read from
  \<open>users.tsv\<close> and \<open>permissions.tsv\<close> (\<open>savePermissions\<close> stores the map).
\<close>

record App =
  session :: "User option"
  users :: "User list"
  perms :: "string \<rightharpoonup> string set"
  disk :: filesys
  storage_root :: path
  currentDir :: path

definition isPublic :: "App \<Rightarrow> string \<Rightarrow> string \<Rightarrow> bool" where
  "isPublic app owner repo \<longleftrightarrow> getVisibility (disk app) (storage_root app) owner repo = ''public''"

definition userExists :: "App \<Rightarrow> string \<Rightarrow> bool" where
  "userExists app name \<longleftrightarrow> list_ex (\<lambda>u. username u = name) (users app)"

definition hasWriteAccess :: "App \<Rightarrow> string \<Rightarrow> string \<Rightarrow> bool" where
  "hasWriteAccess app owner repo =
     (case session app of
        None \<Rightarrow> False
      | Some u \<Rightarrow>
          if role u = ''admin'' then True
          else if username u = owner then True
          else (case perms app (owner @ ''/'' @ repo) of
                  None \<Rightarrow> False
                | Some collaborators \<Rightarrow> username u \<in> collaborators))"

text \<open>
  \<open>parseRepoIdentifier\<close> takes the owner by reference and leaves it as it is when the
  text has no \<open>/\<close>; the result is the owner and the repository name, or \<open>None\<close> for
  \<open>false\<close>.
\<close>

definition parseRepoIdentifier :: "string \<Rightarrow> string \<Rightarrow> (string \<times> string) option" where
  "parseRepoIdentifier raw owner =
     (let v = trim raw in
      if v = [] then None
      else if CHR ''/'' \<notin> set v then Some (owner, v)
      else
        let left = takeWhile (\<lambda>c. c \<noteq> CHR ''/'') v;
            right = drop 1 (dropWhile (\<lambda>c. c \<noteq> CHR ''/'') v)
        in if left = [] \<or> right = [] then None else Some (left, right))"

fun readRepoIdentity_lines :: "string list \<Rightarrow> string \<times> string \<Rightarrow> string \<times> string" where
  "readRepoIdentity_lines [] identity = identity"
| "readRepoIdentity_lines (line # lines) identity =
     (if line = [] then readRepoIdentity_lines lines identity
      else if CHR ''='' \<notin> set line then readRepoIdentity_lines lines identity
      else
        let key = takeWhile (\<lambda>c. c \<noteq> CHR ''='') line;
            val = drop 1 (dropWhile (\<lambda>c. c \<noteq> CHR ''='') line)
        in readRepoIdentity_lines lines
             (if key = ''owner'' then (val, snd identity)
              else if key = ''name'' then (fst identity, val)
              else identity))"

definition readRepoIdentity :: "filesys \<Rightarrow> path \<Rightarrow> string \<times> string" where
  "readRepoIdentity fs repoRoot =
     (case read_file fs (repoRoot @ [''.glite'', ''config'']) of
        None \<Rightarrow> ([], [])
      | Some content \<Rightarrow> readRepoIdentity_lines (read_items NL content) ([], []))"

text \<open>\<open>path::filename\<close>: the last component.\<close>

definition filename :: "path \<Rightarrow> string" where
  "filename p = (if p = [] then [] else last p)"

text \<open>
  The first half of \<open>resolveRepoContext\<close>: which repository the command is about (owner,
  name, root) and the flag \<open>trackedRepo\<close>. The session is the one found by the caller.
\<close>

definition locateRepo :: "App \<Rightarrow> User \<Rightarrow> string option \<Rightarrow> string + (string \<times> string \<times> path \<times> bool)" where
  "locateRepo app u repoOverride =
     (case repoOverride of
        Some raw \<Rightarrow>
          (case parseRepoIdentifier raw (username u) of
             None \<Rightarrow> Inl ''Error: Invalid repository identifier.''
           | Some (overrideOwner, overrideRepo) \<Rightarrow>
               if \<not> repoExists (disk app) (storage_root app) overrideOwner overrideRepo then
                 Inl (''Error: Repository '' @ [QUOTE] @ overrideOwner @ ''/'' @ overrideRepo
                        @ [QUOTE] @ '' not found.'')
               else Inr (overrideOwner, overrideRepo,
                         repoPath (storage_root app) overrideOwner overrideRepo, True))
      | None \<Rightarrow>
          if \<not> fs_exists (disk app) (currentDir app @ [''.glite'']) then
            Inl ''Error: Not a GitLite repository. Run 'init' first or specify repository.''
          else
            let repoRoot = currentDir app;
                identity = readRepoIdentity (disk app) repoRoot;
                owner = (if fst identity \<noteq> [] then fst identity else username u);
                repoName = (if snd identity \<noteq> [] then snd identity else filename repoRoot)
            in Inr (owner, repoName, repoRoot,
                    repoExists (disk app) (storage_root app) owner repoName))"

definition resolveRepoContext :: "App \<Rightarrow> string option \<Rightarrow> bool \<Rightarrow> string + (string \<times> string \<times> path)" where
  "resolveRepoContext app repoOverride requireWriteAccess =
     (case session app of
        None \<Rightarrow> Inl ''Error: Not logged in.''
      | Some u \<Rightarrow>
          (case locateRepo app u repoOverride of
             Inl error \<Rightarrow> Inl error
           | Inr (owner, repoName, repoRoot, trackedRepo) \<Rightarrow>
               let canWrite = hasWriteAccess app owner repoName;
                   canRead = (canWrite \<or> isPublic app owner repoName)
               in if trackedRepo \<and> requireWriteAccess \<and> \<not> canWrite then
                    Inl (''Error: You don't have permission to modify '' @ [QUOTE] @ owner @ ''/''
                           @ repoName @ [QUOTE] @ ''.'')
                  else if trackedRepo \<and> \<not> requireWriteAccess \<and> \<not> canRead then
                    Inl (''Error: Repository '' @ [QUOTE] @ owner @ ''/'' @ repoName @ [QUOTE]
                           @ '' is private.'')
                  else Inr (owner, repoName, repoRoot)))"

definition handleCheckoutCommand :: "App \<Rightarrow> string \<Rightarrow> string option \<Rightarrow> string \<times> App" where
  "handleCheckoutCommand app br repoOverride =
     (case resolveRepoContext app repoOverride True of
        Inl error \<Rightarrow> (error, app)
      | Inr (owner, repoName, repoRoot) \<Rightarrow>
          (''Switched to branch: '' @ br,
           app\<lparr>disk := setCurrentBranch (disk app) repoRoot br\<rparr>))"

text \<open>
  \<open>fs::rename\<close> of a file or of a directory with all it holds. It throws (\<open>None\<close>) when
  the source is missing, when the target lies inside the source, and when the target
  exists and is not a node that may be replaced (a file by a file, an empty directory by
  a directory).
\<close>

definition has_children :: "filesys \<Rightarrow> path \<Rightarrow> bool" where
  "has_children fs q \<longleftrightarrow> list_ex (\<lambda>(k, n). strict_prefix q k) fs"

definition move_tree :: "filesys \<Rightarrow> path \<Rightarrow> path \<Rightarrow> filesys" where
  "move_tree fs q t =
     map (\<lambda>(k, n). if prefix q k then (t @ drop (length q) k, n) else (k, n))
       (filter (\<lambda>(k, n). \<not> prefix t k) fs)"

definition rename :: "filesys \<Rightarrow> path \<Rightarrow> path \<Rightarrow> filesys option" where
  "rename fs old new =
     (case (resolve fs old, resolve fs new) of
        (Some q, Some t) \<Rightarrow>
          (case lookup fs q of
             None \<Rightarrow> None
           | Some n \<Rightarrow>
               if q = t then Some fs
               else if prefix q t \<or> q = [] \<or> t = [] then None
               else (case lookup fs t of
                       None \<Rightarrow> Some (move_tree fs q t)
                     | Some (File c) \<Rightarrow> if n = Dir then None else Some (move_tree fs q t)
                     | Some Dir \<Rightarrow>
                         if n \<noteq> Dir \<or> has_children fs t then None
                         else Some (move_tree fs q t)))
      | _ \<Rightarrow> None)"

text \<open>\<open>path::parent_path\<close>.\<close>

definition parent_path :: "path \<Rightarrow> path" where
  "parent_path p = butlast p"

text \<open>
  \<open>handleCommitCommand\<close> (the command \<open>commit -m <message>\<close>): the repository is the
  current directory; \<open>glitePath.parent_path()\<close> is that directory again. Neither
  \<open>resolveRepoContext\<close> nor \<open>hasWriteAccess\<close> is called. The reply shows the first twelve
  characters of the id (\<open>substr(0, 12)\<close>); after a failure it is \<open>Error: \<close> and the
  error text of \<open>commit\<close> (the text of a caught exception is left out). The terminal
  calls the handler with a message that is not empty.
\<close>

definition handleCommitCommand :: "sha256 \<Rightarrow> string \<Rightarrow> App \<Rightarrow> string \<Rightarrow> string \<times> App" where
  "handleCommitCommand H ts app msg =
     (case session app of
        None \<Rightarrow> (''Error: Not logged in.'', app)
      | Some u \<Rightarrow>
          let glitePath = currentDir app @ [''.glite''] in
          if \<not> fs_exists (disk app) glitePath then
            (''Error: Not a GitLite repository. Run 'init' first.'', app)
          else
            (case commit H ts (disk app) (parent_path glitePath) (username u) msg of
               Inr (fs', record) \<Rightarrow>
                 (''Commit created: '' @ take 12 (id_rec record) @ ''...'', app\<lparr>disk := fs'\<rparr>)
             | Inl (Msg error) \<Rightarrow> (''Error: '' @ error, app)
             | Inl other \<Rightarrow> (''Error: '', app)))"

text \<open>
  \<open>handleTransferCommand\<close>. When a filesystem call throws, the reply is \<open>Error: \<close>
  followed by the text of the exception (\<open>ex.what()\<close>); that text is left out here.
\<close>

definition handleTransferCommand :: "App \<Rightarrow> string \<Rightarrow> string \<Rightarrow> string \<times> App" where
  "handleTransferCommand app repo newOwner =
     (case session app of
        None \<Rightarrow> (''Error: Not logged in.'', app)
      | Some u \<Rightarrow>
          if role u \<noteq> ''admin''
             \<and> \<not> repoExists (disk app) (storage_root app) (username u) repo then
            (''Error: Only repo owner or admin can transfer repositories.'', app)
          else if \<not> userExists app newOwner then
            (''Error: User '' @ [QUOTE] @ newOwner @ [QUOTE] @ '' not found.'', app)
          else if \<not> repoExists (disk app) (storage_root app) (username u) repo then
            (''Error: Repository not found.'', app)
          else
            let oldPath = repoPath (storage_root app) (username u) repo;
                newPath = repoPath (storage_root app) newOwner repo
            in if fs_exists (disk app) newPath then
                 (''Error: Repository already exists for user '' @ [QUOTE] @ newOwner @ [QUOTE]
                    @ ''.'', app)
               else
                 (case create_directories (disk app) (parent_path newPath) of
                    None \<Rightarrow> (''Error: '', app)
                  | Some fs1 \<Rightarrow>
                      (case rename fs1 oldPath newPath of
                         None \<Rightarrow> (''Error: '', app\<lparr>disk := fs1\<rparr>)
                       | Some fs2 \<Rightarrow>
                           let oldKey = username u @ ''/'' @ repo;
                               newKey = newOwner @ ''/'' @ repo
                           in (''Repository transferred to '' @ [QUOTE] @ newOwner @ [QUOTE] @ ''.'',
                               app\<lparr>disk := fs2,
                                   perms := (if perms app oldKey \<noteq> None
                                             then ((perms app)(newKey := perms app oldKey))
                                                    (oldKey := None)
                                             else perms app)\<rparr>))))"

text \<open>A fresh disk: the root, the storage directory and the directories of three users.\<close>

definition fresh_disk :: filesys where
  "fresh_disk =
     [([], Dir), ([''storage''], Dir), ([''storage'', ''alice''], Dir),
      ([''storage'', ''bob''], Dir), ([''storage'', ''root''], Dir), ([''work''], Dir)]"

definition example_users :: "User list" where
  "example_users =
     [\<lparr>username = ''root'', passwordHash = ''h0'', role = ''admin''\<rparr>,
      \<lparr>username = ''alice'', passwordHash = ''h1'', role = ''user''\<rparr>,
      \<lparr>username = ''bob'', passwordHash = ''h2'', role = ''user''\<rparr>,
      \<lparr>username = ''mallory'', passwordHash = ''h3'', role = ''user''\<rparr>]"

text \<open>
  The application after \<open>alice\<close> created the repository \<open>proj\<close>, with the user of the
  given name logged in and the terminal in the directory \<open>dir\<close>.
\<close>

definition example_app :: "string \<Rightarrow> path \<Rightarrow> App" where
  "example_app name dir =
     \<lparr>session = find (\<lambda>u. username u = name) example_users,
      users = example_users,
      perms = Map.empty,
      disk = (case createRepo ''t0'' fresh_disk [''storage''] ''alice'' ''proj'' of
                Inl e \<Rightarrow> fresh_disk | Inr fs \<Rightarrow> fs),
      storage_root = [''storage''],
      currentDir = dir\<rparr>"

text \<open>
  The application after \<open>alice\<close> created her private repository \<open>proj\<close>, put the file
  \<open>notes.txt\<close> into its workspace and staged it; the user of the given name is logged in
  and has changed into the repository directory (\<open>handleCdCommand\<close> asks for an existing
  directory and nothing else).
\<close>

definition staged_app :: "string \<Rightarrow> App" where
  "staged_app name =
     (let app = example_app name [''storage'', ''alice'', ''proj''];
          fs1 = AList.update [''storage'', ''alice'', ''proj'', ''workspace'', ''notes.txt'']
                  (File ''hello'') (disk app)
      in app\<lparr>disk := (case addFile length_hash fs1 [''storage'', ''alice'', ''proj''] ''notes.txt'' of
                        Inl e \<Rightarrow> fs1 | Inr fs2 \<Rightarrow> fs2)\<rparr>)"

text \<open>
  A repository directory outside the storage whose \<open>config\<close> names \<open>alice/proj\<close> (as the
  \<open>config\<close> of a repository does after it was moved: nothing rewrites it), with
  \<open>mallory\<close> logged in and the terminal in that directory.
\<close>

definition stale_config_app :: App where
  "stale_config_app =
     \<lparr>session = find (\<lambda>u. username u = ''mallory'') example_users,
      users = example_users,
      perms = Map.empty,
      disk = fresh_disk @
        [([''work'', ''.glite''], Dir),
         ([''work'', ''.glite'', ''config''],
            File (''name=proj'' @ [NL] @ ''owner=alice'' @ [NL] @ ''visibility=private'' @ [NL]))],
      storage_root = [''storage''],
      currentDir = [''work'']\<rparr>"

section \<open>Mirror push and pull (\<open>RepoService::push\<close>, \<open>pull\<close>, \<open>copyDirectory\<close>)\<close>

text \<open>
  What \<open>fs::recursive_directory_iterator(from)\<close> yields, as pairs of the path relative
  to \<open>from\<close> (\<open>fs::relative\<close>) and the node: every entry below the directory. The order
  is the order of the table (the iterator promises none), and the entries are those
  present when the iteration starts.
\<close>

definition entries_below :: "filesys \<Rightarrow> path \<Rightarrow> (path \<times> node) list" where
  "entries_below fs q =
     map (\<lambda>(k, n). (drop (length q) k, n))
       (filter (\<lambda>(k, n). strict_prefix q k \<and> lookup fs k = Some n) fs)"

text \<open>
  The loop of \<open>copyDirectory\<close>. The flag is false when a call threw: the exception
  leaves the loop with what was copied so far.
\<close>

fun copy_entries :: "filesys \<Rightarrow> path \<Rightarrow> path \<Rightarrow> (path \<times> node) list \<Rightarrow> filesys \<times> bool" where
  "copy_entries fs from to [] = (fs, True)"
| "copy_entries fs from to ((relative, n) # entries) =
     (case n of
        Dir \<Rightarrow>
          (case create_directories fs (to @ relative) of
             None \<Rightarrow> (fs, False)
           | Some fs1 \<Rightarrow> copy_entries fs1 from to entries)
      | File c \<Rightarrow>
          (case create_directories fs (parent_path (to @ relative)) of
             None \<Rightarrow> (fs, False)
           | Some fs1 \<Rightarrow>
               (case copy_file fs1 (from @ relative) (to @ relative) True of
                  None \<Rightarrow> (fs1, False)
                | Some fs2 \<Rightarrow> copy_entries fs2 from to entries)))"

definition copyDirectory :: "filesys \<Rightarrow> path \<Rightarrow> path \<Rightarrow> filesys \<times> bool" where
  "copyDirectory fs from to =
     (if \<not> fs_exists fs from then (fs, True)
      else
        let fs1 = (if fs_exists fs to then remove_all fs to else fs) in
        (case create_directories fs1 to of
           None \<Rightarrow> (fs1, False)
         | Some fs2 \<Rightarrow>
             (case resolve fs2 from of
                None \<Rightarrow> (fs2, False)
              | Some q \<Rightarrow>
                  if lookup fs2 q = Some Dir then copy_entries fs2 from to (entries_below fs2 q)
                  else (fs2, False))))"

text \<open>
  \<open>push\<close> and \<open>pull\<close> give the filesystem after the call and the error reported, \<open>None\<close>
  when the call returned true.
\<close>

definition copy_repo :: "filesys \<Rightarrow> path \<Rightarrow> path \<Rightarrow> filesys \<times> failure option" where
  "copy_repo fs source target =
     (case copyDirectory fs (source @ [''.glite'']) (target @ [''.glite'']) of
        (fs1, False) \<Rightarrow> (fs1, Some Caught)
      | (fs1, True) \<Rightarrow>
          (case copyDirectory fs1 (source @ [''workspace'']) (target @ [''workspace'']) of
             (fs2, False) \<Rightarrow> (fs2, Some Caught)
           | (fs2, True) \<Rightarrow> (fs2, None)))"

definition push :: "filesys \<Rightarrow> path \<Rightarrow> path \<Rightarrow> filesys \<times> failure option" where
  "push fs repoRoot remoteRoot =
     (let fs1 = (if fs_exists fs remoteRoot then remove_all fs remoteRoot else fs) in
      case create_directories fs1 remoteRoot of
        None \<Rightarrow> (fs1, Some Caught)
      | Some fs2 \<Rightarrow> copy_repo fs2 repoRoot remoteRoot)"

definition pull :: "filesys \<Rightarrow> path \<Rightarrow> path \<Rightarrow> filesys \<times> failure option" where
  "pull fs repoRoot remoteRoot =
     (if \<not> fs_exists fs remoteRoot then (fs, Some (Msg ''Remote not found.''))
      else copy_repo fs remoteRoot repoRoot)"

text \<open>
  A filesystem that is a tree: the root is a directory, and every node has a path of
  file names and stands in a directory.
\<close>

definition tree :: "filesys \<Rightarrow> bool" where
  "tree fs \<longleftrightarrow>
     lookup fs [] = Some Dir \<and>
     (\<forall>k. lookup fs k \<noteq> None \<longrightarrow> list_all file_name k \<and> lookup fs (butlast k) = Some Dir)"

text \<open>Two paths neither of which lies below the other.\<close>

definition apart :: "path \<Rightarrow> path \<Rightarrow> bool" where
  "apart p q \<longleftrightarrow> \<not> prefix p q \<and> \<not> prefix q p"

text \<open>
  A place where a directory can be made: a path of file names with no regular file at
  it or above it.
\<close>

definition creatable :: "filesys \<Rightarrow> path \<Rightarrow> bool" where
  "creatable fs p \<longleftrightarrow>
     list_all file_name p \<and>
     list_all (\<lambda>q. case lookup fs q of Some (File c) \<Rightarrow> False | _ \<Rightarrow> True) (prefixes p)"

text \<open>
  A disk with the repository \<open>storage/alice/proj\<close>: one object, the branch \<open>main\<close>, the
  tag \<open>v1\<close> and one workspace file.
\<close>

definition mirror_disk :: filesys where
  "mirror_disk =
     [([], Dir), ([''storage''], Dir), ([''storage'', ''alice''], Dir),
      ([''storage'', ''alice'', ''proj''], Dir),
      ([''storage'', ''alice'', ''proj'', ''.glite''], Dir),
      ([''storage'', ''alice'', ''proj'', ''.glite'', ''HEAD''], File (''ref: main'' @ [NL])),
      ([''storage'', ''alice'', ''proj'', ''.glite'', ''objects''], Dir),
      ([''storage'', ''alice'', ''proj'', ''.glite'', ''objects'', ''c1''],
         File (''id=c1'' @ [NL] @ ''files:'' @ [NL])),
      ([''storage'', ''alice'', ''proj'', ''.glite'', ''refs''], Dir),
      ([''storage'', ''alice'', ''proj'', ''.glite'', ''refs'', ''heads''], Dir),
      ([''storage'', ''alice'', ''proj'', ''.glite'', ''refs'', ''heads'', ''main''],
         File (''c1'' @ [NL])),
      ([''storage'', ''alice'', ''proj'', ''.glite'', ''refs'', ''tags''], Dir),
      ([''storage'', ''alice'', ''proj'', ''.glite'', ''refs'', ''tags'', ''v1''],
         File (''c1'' @ [NL])),
      ([''storage'', ''alice'', ''proj'', ''workspace''], Dir),
      ([''storage'', ''alice'', ''proj'', ''workspace'', ''notes.txt''], File ''hello'')]"

section \<open>Properties of the text functions\<close>

lemma getline_Nil [simp]: "getline d [] = None"
  by (simp add: getline_def)

lemma getline_line [simp]:
  assumes "d \<notin> set l"
  shows "getline d (l @ d # rest) = Some (l, rest)"
proof -
  have a: "\<forall>x\<in>set l. x \<noteq> d" using assms by auto
  have "takeWhile (\<lambda>c. c \<noteq> d) (l @ d # rest) = l"
    using a by (simp add: takeWhile_append2)
  moreover have "dropWhile (\<lambda>c. c \<noteq> d) (l @ d # rest) = d # rest"
    using a by (simp add: dropWhile_append2)
  ultimately show ?thesis by (simp add: getline_def)
qed

lemma getline_last:
  assumes "s \<noteq> []" and "d \<notin> set s"
  shows "getline d s = Some (s, [])"
proof -
  have a: "\<forall>x\<in>set s. x \<noteq> d" using assms by auto
  have t: "takeWhile (\<lambda>c. c \<noteq> d) s = s" using a by (simp add: takeWhile_eq_all_conv)
  have dd: "dropWhile (\<lambda>c. c \<noteq> d) s = []" using a dropWhile_eq_Nil_conv by blast
  show ?thesis unfolding getline_def t dd using assms(1) by simp
qed

lemma getline_fst_no_delim: "getline d s = Some (l, r) \<Longrightarrow> d \<notin> set l"
  by (auto simp: getline_def split: if_splits dest: set_takeWhileD)

lemma getline_fst_subset: "getline d s = Some (l, r) \<Longrightarrow> set l \<subseteq> set s"
  by (auto simp: getline_def split: if_splits dest: set_takeWhileD)

lemma read_items_Nil [simp]: "read_items d [] = []"
  by (simp add: read_items.simps)

lemma read_items_line [simp]:
  "d \<notin> set l \<Longrightarrow> read_items d (l @ d # rest) = l # read_items d rest"
  by (subst read_items.simps) simp

lemma read_items_last: "s \<noteq> [] \<Longrightarrow> d \<notin> set s \<Longrightarrow> read_items d s = [s]"
  by (subst read_items.simps) (simp add: getline_last)

lemma read_items_no_delim: "l \<in> set (read_items d s) \<Longrightarrow> d \<notin> set l"
proof (induction d s rule: read_items.induct)
  case (1 delim s)
  show ?case
  proof (cases "getline delim s")
    case None
    with 1(2) show ?thesis by (simp add: read_items.simps)
  next
    case (Some a)
    obtain item rest where a: "a = (item, rest)" by (cases a)
    from 1(2) Some a have "l = item \<or> l \<in> set (read_items delim rest)"
      by (subst (asm) read_items.simps) auto
    then show ?thesis
      using 1(1)[OF Some a[symmetric]] getline_fst_no_delim[of delim s item rest] Some a by auto
  qed
qed

lemma read_items_subset: "l \<in> set (read_items d s) \<Longrightarrow> set l \<subseteq> set s"
proof (induction d s rule: read_items.induct)
  case (1 delim s)
  show ?case
  proof (cases "getline delim s")
    case None
    with 1(2) show ?thesis by (simp add: read_items.simps)
  next
    case (Some a)
    obtain item rest where a: "a = (item, rest)" by (cases a)
    have rest: "set rest \<subseteq> set s"
      using Some a by (auto simp: getline_def split: if_splits dest: in_set_dropD set_dropWhileD)
    from 1(2) Some a have "l = item \<or> l \<in> set (read_items delim rest)"
      by (subst (asm) read_items.simps) auto
    then show ?thesis
      using 1(1)[OF Some a[symmetric]] getline_fst_subset[of delim s item rest] Some a rest by auto
  qed
qed

lemma set_trim: "set (trim s) \<subseteq> set s"
  by (auto simp: trim_def dest!: set_dropWhileD)

lemma trim_id: "\<forall>c\<in>set s. \<not> is_ws c \<Longrightarrow> trim s = s"
proof -
  assume a: "\<forall>c\<in>set s. \<not> is_ws c"
  have 1: "dropWhile is_ws s = s" using a by (cases s) auto
  have "\<forall>c\<in>set (rev s). \<not> is_ws c" using a by simp
  then have 2: "dropWhile is_ws (rev s) = rev s" by (cases "rev s") auto
  show ?thesis by (simp add: trim_def 1 2)
qed

lemma hex_digit_in: "hex_digit n \<in> set ''0123456789abcdef?''"
  by (auto simp: hex_digit_def nth_Cons' )

section \<open>Properties of the hash text\<close>

lemma hex_digit_cases:
  assumes "n < 16"
  shows "hex_digit n \<in> set ''0123456789abcdef''"
proof -
  from assms have "n < length ''0123456789abcdef''" by simp
  then have "''0123456789abcdef'' ! n \<in> set ''0123456789abcdef''" by (rule nth_mem)
  then show ?thesis using assms by (simp only: hex_digit_def if_True)
qed

lemma set_hex_byte: "set (hex_byte b) \<subseteq> set ''0123456789abcdef''"
proof -
  have "unat b < 256" using unsigned_less[of b] by simp
  then have "unat b div 16 < 16" by simp
  moreover have "unat b mod 16 < 16" by simp
  ultimately show ?thesis
    using hex_digit_cases[of "unat b div 16"] hex_digit_cases[of "unat b mod 16"]
    by (simp add: hex_byte_def)
qed

lemma set_toHex: "set (toHex data len) \<subseteq> set ''0123456789abcdef''"
  using set_hex_byte by (fastforce simp: toHex_def)

lemma length_toHex: "length (toHex data len) = 2 * len"
  by (induction len) (simp_all add: toHex_def hex_byte_def)

lemma set_sha256String: "set (sha256String H t) \<subseteq> set ''0123456789abcdef''"
  by (simp only: sha256String_def sha256Bytes_def set_toHex)

lemma length_sha256String: "length (sha256String H t) = 64"
  by (simp add: sha256String_def sha256Bytes_def length_toHex crypto_hash_sha256_BYTES_def)

lemma sha256String_file_name: "file_name (sha256String H t)"
proof -
  have l: "length (sha256String H t) = 64" by (rule length_sha256String)
  have "CHR ''/'' \<notin> set (sha256String H t)"
    using set_sha256String[of H t] by auto
  moreover have "sha256String H t \<noteq> []" "sha256String H t \<noteq> ''.''" "sha256String H t \<noteq> ''..''"
    using l by auto
  ultimately show ?thesis by (simp add: file_name_def)
qed

lemma sha256String_no_ws: "\<forall>c\<in>set (sha256String H t). \<not> is_ws c"
  using set_sha256String[of H t] by (auto simp: is_ws_def)

lemma sha256String_no_NL: "NL \<notin> set (sha256String H t)"
  using set_sha256String[of H t] by auto

lemma sha256String_no_TAB: "TAB \<notin> set (sha256String H t)"
  using set_sha256String[of H t] by auto

lemma sha256String_not_Nil: "sha256String H t \<noteq> []"
  using length_sha256String[of H t] by auto

lemma trim_sha256String: "trim (sha256String H t) = sha256String H t"
  by (rule trim_id) (rule sha256String_no_ws)

section \<open>Properties of the filesystem\<close>

lemma lookup_update [simp]: "lookup (AList.update k v fs) = (lookup fs)(k \<mapsto> v)"
  by (rule ext) (simp add: lookup_def update_conv')

lemma components_no_sep: "CHR ''/'' \<notin> set s \<Longrightarrow> components s = [s]"
  by (induction s) auto

lemma slash_file_name: "file_name n \<Longrightarrow> slash p n = p @ [n]"
  by (cases n) (auto simp: slash_def file_name_def components_no_sep)

text \<open>Resolution looks at the directories only.\<close>

lemma walk_cong:
  "(\<And>p. (lookup fs' p = Some Dir) = (lookup fs p = Some Dir)) \<Longrightarrow> walk fs' cur cs = walk fs cur cs"
  by (induction cs arbitrary: cur) auto

lemma walk_update_File:
  assumes "lookup fs q \<noteq> Some Dir"
  shows "walk (AList.update q (File c) fs) cur cs = walk fs cur cs"
  by (rule walk_cong) (use assms in auto)

lemma resolve_update_File [simp]:
  "lookup fs q \<noteq> Some Dir \<Longrightarrow> resolve (AList.update q (File c) fs) p = resolve fs p"
  by (simp add: resolve_def walk_update_File)

lemma walk_names:
  "list_all file_name xs \<Longrightarrow> (\<And>ys. strict_prefix ys xs \<Longrightarrow> lookup fs (cur @ ys) = Some Dir)
    \<Longrightarrow> walk fs cur xs = Some (cur @ xs)"
proof (induction xs arbitrary: cur)
  case Nil
  then show ?case by simp
next
  case (Cons x xs)
  have d: "lookup fs cur = Some Dir" using Cons.prems(2)[of "[]"] by simp
  have x: "x \<noteq> []" "x \<noteq> ''.''" "x \<noteq> ''..''" using Cons.prems(1) by (auto simp: file_name_def)
  have "walk fs (cur @ [x]) xs = Some ((cur @ [x]) @ xs)"
  proof (rule Cons.IH)
    show "list_all file_name xs" using Cons.prems(1) by simp
  next
    fix ys assume "strict_prefix ys xs"
    then have "strict_prefix (x # ys) (x # xs)" by simp
    from Cons.prems(2)[OF this] show "lookup fs ((cur @ [x]) @ ys) = Some Dir" by simp
  qed
  then show ?case using d x by simp
qed

lemma walk_append:
  "walk fs cur (xs @ ys) = (case walk fs cur xs of None \<Rightarrow> None | Some q \<Rightarrow> walk fs q ys)"
  by (induction xs arbitrary: cur) auto

lemma dir_path_prefix: "dir_path fs p \<Longrightarrow> prefix q p \<Longrightarrow> lookup fs q = Some Dir"
  by (auto simp: dir_path_def list_all_iff)

lemma resolve_dir_path: "dir_path fs p \<Longrightarrow> resolve fs p = Some p"
  unfolding resolve_def
  using walk_names[of p fs "[]"] by (auto simp: dir_path_def list_all_iff strict_prefix_def)

lemma resolve_child:
  assumes "dir_path fs d" and "file_name n"
  shows "resolve fs (d @ [n]) = Some (d @ [n])"
proof -
  have "walk fs [] d = Some d" using resolve_dir_path[OF assms(1)] by (simp add: resolve_def)
  moreover have "lookup fs d = Some Dir" using dir_path_prefix[OF assms(1), of d] by simp
  ultimately show ?thesis
    using assms(2) by (simp add: resolve_def walk_append file_name_def)
qed

lemma dir_path_child:
  "dir_path fs d \<Longrightarrow> file_name n \<Longrightarrow> lookup fs (d @ [n]) = Some Dir \<Longrightarrow> dir_path fs (d @ [n])"
  by (auto simp: dir_path_def)

lemma dir_path_prefix_path: "dir_path fs p \<Longrightarrow> prefix q p \<Longrightarrow> dir_path fs q"
proof -
  assume a: "dir_path fs p" and b: "prefix q p"
  then obtain r where p: "p = q @ r" by (auto simp: prefix_def)
  have "list_all file_name q" using a p by (simp add: dir_path_def)
  moreover have "\<And>x. prefix x q \<Longrightarrow> lookup fs x = Some Dir"
    using a b by (meson dir_path_prefix prefix_order.trans)
  ultimately show ?thesis by (simp add: dir_path_def list_all_iff)
qed

lemma dir_path_update_File:
  assumes "lookup fs q \<noteq> Some Dir" and "dir_path fs p"
  shows "dir_path (AList.update q (File c) fs) p"
  using assms by (auto simp: dir_path_def list_all_iff)

lemma flat_dir_update_File:
  assumes "lookup fs q \<noteq> Some Dir" and "flat_dir fs d"
  shows "flat_dir (AList.update q (File c) fs) d"
  using assms by (auto simp: flat_dir_def)

lemma repo_skeleton_update_File:
  assumes "lookup fs q \<noteq> Some Dir" and "repo_skeleton fs root"
  shows "repo_skeleton (AList.update q (File c) fs) root"
  using assms
  by (auto simp: repo_skeleton_def dir_path_update_File flat_dir_update_File)

lemma skeleton_glite: "repo_skeleton fs root \<Longrightarrow> dir_path fs (root @ [''.glite''])"
  by (rule dir_path_prefix_path[of fs "root @ [''.glite'', ''refs'']"])
     (auto simp: repo_skeleton_def)

lemma skeleton_objects: "repo_skeleton fs root \<Longrightarrow> dir_path fs (objects_dir root)"
  using dir_path_child[of fs "root @ [''.glite'']" "''objects''"] skeleton_glite[of fs root]
  by (simp add: repo_skeleton_def flat_dir_def objects_dir_def file_name_def)

lemma skeleton_heads: "repo_skeleton fs root \<Longrightarrow> dir_path fs (heads_dir root)"
  using dir_path_child[of fs "root @ [''.glite'', ''refs'']" "''heads''"]
  by (simp add: repo_skeleton_def flat_dir_def heads_dir_def file_name_def)

lemma resolve_HEAD: "repo_skeleton fs root \<Longrightarrow> resolve fs (HEAD_file root) = Some (HEAD_file root)"
  using resolve_child[of fs "root @ [''.glite'']" "''HEAD''"] skeleton_glite[of fs root]
  by (simp add: HEAD_file_def file_name_def)

lemma resolve_index: "repo_skeleton fs root \<Longrightarrow> resolve fs (index_file root) = Some (index_file root)"
  using resolve_child[of fs "root @ [''.glite'']" "''index''"] skeleton_glite[of fs root]
  by (simp add: index_file_def file_name_def)

lemma resolve_log: "repo_skeleton fs root \<Longrightarrow> resolve fs (log_file root) = Some (log_file root)"
  using resolve_child[of fs "root @ [''.glite'']" "''log''"] skeleton_glite[of fs root]
  by (simp add: log_file_def file_name_def)

lemma resolve_object:
  "repo_skeleton fs root \<Longrightarrow> file_name n \<Longrightarrow>
    resolve fs (slash (objects_dir root) n) = Some (objects_dir root @ [n])"
  using resolve_child[of fs "objects_dir root" n] skeleton_objects[of fs root]
  by (simp add: slash_file_name)

lemma resolve_head:
  "repo_skeleton fs root \<Longrightarrow> file_name n \<Longrightarrow>
    resolve fs (slash (heads_dir root) n) = Some (heads_dir root @ [n])"
  using resolve_child[of fs "heads_dir root" n] skeleton_heads[of fs root]
  by (simp add: slash_file_name)

lemma object_not_Dir: "repo_skeleton fs root \<Longrightarrow> lookup fs (objects_dir root @ [n]) \<noteq> Some Dir"
  by (simp add: repo_skeleton_def flat_dir_def)

lemma head_not_Dir: "repo_skeleton fs root \<Longrightarrow> lookup fs (heads_dir root @ [n]) \<noteq> Some Dir"
  by (simp add: repo_skeleton_def flat_dir_def)

lemma read_file_resolved:
  "resolve fs p = Some q \<Longrightarrow>
    read_file fs p = (case lookup fs q of Some (File c) \<Rightarrow> Some c | _ \<Rightarrow> None)"
  by (simp add: read_file_def)

lemma write_file_resolved:
  "resolve fs p = Some q \<Longrightarrow> lookup fs q \<noteq> Some Dir \<Longrightarrow>
    write_file fs p c = Some (AList.update q (File c) fs)"
  by (simp add: write_file_def)

lemma append_file_resolved:
  "resolve fs p = Some q \<Longrightarrow> lookup fs q \<noteq> Some Dir \<Longrightarrow>
    append_file fs p c = Some (AList.update q (File (file_text fs q @ c)) fs)"
  by (auto simp: append_file_def file_text_def split: option.splits node.splits)

text \<open>The effect of the service's writes in a repository.\<close>

lemma write_object:
  assumes "repo_skeleton fs root" and "file_name n"
  shows "or_unchanged fs (write_file fs (slash (objects_dir root) n) c)
    = AList.update (objects_dir root @ [n]) (File c) fs"
  using write_file_resolved[OF resolve_object[OF assms] object_not_Dir[OF assms(1)]]
  by (simp add: or_unchanged_def)

lemma updateBranchHead_file_name:
  assumes "repo_skeleton fs root" and "file_name br"
  shows "updateBranchHead fs root br cid
    = (AList.update (heads_dir root @ [br]) (File (cid @ [NL])) fs, True)"
  using write_file_resolved[OF resolve_head[OF assms] head_not_Dir[OF assms(1)]]
  by (simp add: updateBranchHead_def)

lemma writeIndex_skeleton:
  assumes "repo_skeleton fs root"
  shows "writeIndex fs root entries = AList.update (index_file root) (File (entry_lines entries)) fs"
proof -
  have "lookup fs (index_file root) \<noteq> Some Dir" using assms by (simp add: repo_skeleton_def)
  from write_file_resolved[OF resolve_index[OF assms] this] show ?thesis
    by (simp add: writeIndex_def or_unchanged_def)
qed

lemma appendLog_skeleton:
  assumes "repo_skeleton fs root"
  shows "appendLog fs root r
    = AList.update (log_file root) (File (file_text fs (log_file root) @ log_line r @ [NL])) fs"
proof -
  have "lookup fs (log_file root) \<noteq> Some Dir" using assms by (simp add: repo_skeleton_def)
  from append_file_resolved[OF resolve_log[OF assms] this] show ?thesis
    by (simp add: appendLog_def or_unchanged_def log_line_def)
qed

lemma branchHead_file_name:
  assumes "repo_skeleton fs root" and "file_name br"
  shows "branchHead fs root br =
    (case lookup fs (heads_dir root @ [br]) of
       Some (File c) \<Rightarrow> (case getline NL c of None \<Rightarrow> [] | Some (l, r) \<Rightarrow> trim l)
     | _ \<Rightarrow> [])"
  using read_file_resolved[OF resolve_head[OF assms]]
  by (auto simp: branchHead_def first_line_def split: option.splits node.splits)

lemma readIndex_skeleton:
  assumes "repo_skeleton fs root"
  shows "readIndex fs root =
    (case lookup fs (index_file root) of
       Some (File c) \<Rightarrow> index_entries (read_items NL c)
     | _ \<Rightarrow> [])"
  using read_file_resolved[OF resolve_index[OF assms]]
  by (auto simp: readIndex_def split: option.splits node.splits)

lemma currentBranch_no_NL: "NL \<notin> set (currentBranch fs root)"
proof (cases "first_line fs (HEAD_file root)")
  case None
  then show ?thesis by (simp add: currentBranch_def)
next
  case (Some l)
  then have "NL \<notin> set l"
    by (auto simp: first_line_def split: option.splits dest: getline_fst_no_delim)
  then have "NL \<notin> set (trim l)" using set_trim[of l] by auto
  then have "NL \<notin> set (trim (drop 4 (trim l)))"
    using set_trim[of "drop 4 (trim l)"] by (auto dest: in_set_dropD)
  then show ?thesis using Some by (simp add: currentBranch_def Let_def)
qed

lemma commit_effect:
  fixes H :: sha256 and ts auth msg :: string
  assumes sk: "repo_skeleton fs root"
    and fn: "file_name (currentBranch fs root)"
    and ne: "readIndex fs root \<noteq> []"
  defines "br \<equiv> currentBranch fs root"
  defines "body \<equiv> commit_body auth ts br (branchHead fs root br) msg (readIndex fs root)"
  defines "cid \<equiv> sha256String H body"
  defines "r \<equiv> \<lparr>id_rec = cid, parent = branchHead fs root br, author = auth, timestamp = ts,
      message = msg, branch = br, files = readIndex fs root\<rparr>"
  shows "commit H ts fs root auth msg =
    Inr (AList.update (log_file root) (File (file_text fs (log_file root) @ log_line r @ [NL]))
          (AList.update (index_file root) (File [])
            (AList.update (heads_dir root @ [br]) (File (cid @ [NL]))
              (AList.update (objects_dir root @ [cid]) (File (''id='' @ cid @ [NL] @ body)) fs))), r)"
proof -
  define fs1 where "fs1 = AList.update (objects_dir root @ [cid]) (File (''id='' @ cid @ [NL] @ body)) fs"
  define fs2 where "fs2 = AList.update (heads_dir root @ [br]) (File (cid @ [NL])) fs1"
  define fs3 where "fs3 = AList.update (index_file root) (File []) fs2"
  have c: "file_name cid" unfolding cid_def by (rule sha256String_file_name)
  have sk1: "repo_skeleton fs1 root"
    unfolding fs1_def by (rule repo_skeleton_update_File[OF object_not_Dir[OF sk] sk])
  have sk2: "repo_skeleton fs2 root"
    unfolding fs2_def by (rule repo_skeleton_update_File[OF head_not_Dir[OF sk1] sk1])
  have sk3: "repo_skeleton fs3 root"
    unfolding fs3_def
    by (rule repo_skeleton_update_File[OF _ sk2]) (use sk2 in \<open>simp add: repo_skeleton_def\<close>)
  have 1: "or_unchanged fs (write_file fs (slash (objects_dir root) cid) (''id='' @ cid @ [NL] @ body)) = fs1"
    unfolding fs1_def by (rule write_object[OF sk c])
  have 2: "fst (updateBranchHead fs1 root br cid) = fs2"
    unfolding fs2_def using updateBranchHead_file_name[OF sk1, of br cid] fn by (simp add: br_def)
  have 3: "writeIndex fs2 root [] = fs3"
    unfolding fs3_def using writeIndex_skeleton[OF sk2, of "[]"] by (simp add: entry_lines_def)
  have l: "file_text fs3 (log_file root) = file_text fs (log_file root)"
    by (simp add: fs3_def fs2_def fs1_def file_text_def log_file_def index_file_def heads_dir_def
        objects_dir_def)
  have 4: "appendLog fs3 root r
      = AList.update (log_file root) (File (file_text fs (log_file root) @ log_line r @ [NL])) fs3"
    using appendLog_skeleton[OF sk3, of r] l by simp
  have "commit H ts fs root auth msg =
      Inr (appendLog (writeIndex (fst (updateBranchHead
        (or_unchanged fs (write_file fs (slash (objects_dir root) cid) (''id='' @ cid @ [NL] @ body)))
        root br cid)) root []) root r, r)"
    using ne unfolding commit_def Let_def br_def body_def cid_def r_def by simp
  also have "\<dots> = Inr (AList.update (log_file root)
      (File (file_text fs (log_file root) @ log_line r @ [NL])) fs3, r)"
    by (simp only: 1 2 3 4)
  finally show ?thesis by (simp only: fs3_def fs2_def fs1_def)
qed

lemma currentBranch_skeleton:
  assumes "repo_skeleton fs root"
  shows "currentBranch fs root =
    (case lookup fs (HEAD_file root) of
       Some (File c) \<Rightarrow>
         (case getline NL c of
            None \<Rightarrow> ''main''
          | Some (l, r) \<Rightarrow> if take 4 (trim l) = ''ref:'' then trim (drop 4 (trim l)) else ''main'')
     | _ \<Rightarrow> ''main'')"
  using read_file_resolved[OF resolve_HEAD[OF assms]]
  by (auto simp: currentBranch_def first_line_def Let_def split: option.splits node.splits)

section \<open>Commit\<close>

lemma staged_repo_skeleton: "repo_skeleton (staged_repo head) []"
  by (simp add: repo_skeleton_def dir_path_def flat_dir_def file_name_def lookup_def
      staged_repo_def objects_dir_def heads_dir_def HEAD_file_def index_file_def log_file_def)

text \<open>
  Where the ref of the current branch can be written (in a repository with the skeleton
  whose current branch is a file name, for a message and a clock text of one line):
  \<open>commit\<close> fails on an empty index; on a non-empty index the object holds \<open>id=<id>\<close>,
  a newline and the body, the id is the digest of the body, the ref of the current
  branch holds the id, \<open>HEAD\<close> is untouched, the index is empty and the log has grown
  by one line.
\<close>

lemma commit_with_ref:
  fixes H :: sha256 and ts auth msg :: string
  assumes sk: "repo_skeleton fs root"
    and fn: "file_name (currentBranch fs root)"
    and msg: "NL \<notin> set msg"
    and ts: "NL \<notin> set ts"
  shows "if readIndex fs root = []
     then commit H ts fs root auth msg = Inl (Msg ''Nothing to commit (index empty).'')
     else (\<exists>fs' r. commit H ts fs root auth msg = Inr (fs', r)
       \<and> id_rec r = sha256String H (commit_body auth ts (currentBranch fs root)
            (branchHead fs root (currentBranch fs root)) msg (readIndex fs root))
       \<and> lookup fs' (objects_dir root @ [id_rec r]) =
            Some (File (''id='' @ id_rec r @ [NL] @ commit_body auth ts (currentBranch fs root)
              (branchHead fs root (currentBranch fs root)) msg (readIndex fs root)))
       \<and> lookup fs' (heads_dir root @ [currentBranch fs root]) = Some (File (id_rec r @ [NL]))
       \<and> branchHead fs' root (currentBranch fs root) = id_rec r
       \<and> lookup fs' (HEAD_file root) = lookup fs (HEAD_file root)
       \<and> lookup fs' (index_file root) = Some (File [])
       \<and> readIndex fs' root = []
       \<and> file_text fs' (log_file root) = file_text fs (log_file root) @ log_line r @ [NL]
       \<and> NL \<notin> set (log_line r))"
proof (cases "readIndex fs root = []")
  case True
  then show ?thesis by (simp add: commit_def)
next
  case False
  define br where "br = currentBranch fs root"
  define body where "body = commit_body auth ts br (branchHead fs root br) msg (readIndex fs root)"
  define cid where "cid = sha256String H body"
  define r where "r = \<lparr>id_rec = cid, parent = branchHead fs root br, author = auth,
    timestamp = ts, message = msg, branch = br, files = readIndex fs root\<rparr>"
  define fs1 where "fs1 = AList.update (objects_dir root @ [cid]) (File (''id='' @ cid @ [NL] @ body)) fs"
  define fs2 where "fs2 = AList.update (heads_dir root @ [br]) (File (cid @ [NL])) fs1"
  define fs3 where "fs3 = AList.update (index_file root) (File []) fs2"
  define fs' where "fs' = AList.update (log_file root)
    (File (file_text fs (log_file root) @ log_line r @ [NL])) fs3"
  have c: "commit H ts fs root auth msg = Inr (fs', r)"
    using commit_effect[OF sk fn False, where H=H and ts=ts and auth=auth and msg=msg]
    by (simp only: fs'_def fs3_def fs2_def fs1_def r_def cid_def body_def br_def)
  have sk1: "repo_skeleton fs1 root"
    unfolding fs1_def by (rule repo_skeleton_update_File[OF object_not_Dir[OF sk] sk])
  have sk2: "repo_skeleton fs2 root"
    unfolding fs2_def by (rule repo_skeleton_update_File[OF head_not_Dir[OF sk1] sk1])
  have sk3: "repo_skeleton fs3 root"
    unfolding fs3_def
    by (rule repo_skeleton_update_File[OF _ sk2]) (use sk2 in \<open>simp add: repo_skeleton_def\<close>)
  have sk': "repo_skeleton fs' root"
    unfolding fs'_def
    by (rule repo_skeleton_update_File[OF _ sk3]) (use sk3 in \<open>simp add: repo_skeleton_def\<close>)
  have paths: "lookup fs' (objects_dir root @ [cid]) = Some (File (''id='' @ cid @ [NL] @ body))"
    "lookup fs' (heads_dir root @ [br]) = Some (File (cid @ [NL]))"
    "lookup fs' (HEAD_file root) = lookup fs (HEAD_file root)"
    "lookup fs' (index_file root) = Some (File [])"
    "lookup fs' (log_file root) = Some (File (file_text fs (log_file root) @ log_line r @ [NL]))"
    by (simp_all add: fs'_def fs3_def fs2_def fs1_def objects_dir_def heads_dir_def HEAD_file_def
        index_file_def log_file_def)
  have nl: "NL \<notin> set cid" unfolding cid_def by (rule sha256String_no_NL)
  have bh: "branchHead fs' root br = cid"
    using branchHead_file_name[OF sk', of br] fn paths(2) nl
      trim_sha256String[of H body] getline_line[OF nl, of "[]"]
    by (simp add: br_def cid_def)
  have ri: "readIndex fs' root = []"
    using readIndex_skeleton[OF sk'] paths(4) by simp
  have ll: "NL \<notin> set (log_line r)"
    using nl msg ts currentBranch_no_NL[of fs root] by (simp add: log_line_def r_def br_def)
  have "id_rec r = cid" by (simp add: r_def)
  then show ?thesis
    using False c paths bh ri ll
    by (simp add: file_text_def cid_def body_def br_def)
qed

subsection \<open>Commit where the ref cannot be written\<close>

lemma updateBranchHead_directory:
  assumes "resolve fs (slash (heads_dir root) br) = Some q" and "lookup fs q = Some Dir"
  shows "updateBranchHead fs root br cid = (fs, False)"
  using assms by (simp add: updateBranchHead_def write_file_def)

lemma branchHead_directory:
  assumes "resolve fs (slash (heads_dir root) br) = Some q" and "lookup fs q = Some Dir"
  shows "branchHead fs root br = []"
  using assms by (simp add: branchHead_def first_line_def read_file_def)

text \<open>
  C1 fails on the code where the ref of the current branch cannot be opened for writing;
  in the model that is a ref path that leads to a directory (\<open>HEAD\<close> naming \<open>..\<close>, written
  by the command \<open>checkout ..\<close>, makes it \<open>refs\<close>). \<open>updateBranchHead\<close> reports the failed
  stream by \<open>false\<close>, \<open>commit\<close> drops that result: on a non-empty index it still writes
  the object, empties the index, adds the log line and returns true with the new id,
  while no file under \<open>refs/heads\<close> has changed and the head of the current branch
  reads as empty.
\<close>

theorem commit_ignores_ref_failure:
  fixes H :: sha256 and ts auth msg :: string
  assumes sk: "repo_skeleton fs root"
    and ne: "readIndex fs root \<noteq> []"
    and rq: "resolve fs (slash (heads_dir root) (currentBranch fs root)) = Some q"
    and qd: "lookup fs q = Some Dir"
  shows "\<exists>fs' r. commit H ts fs root auth msg = Inr (fs', r)
    \<and> id_rec r \<noteq> []
    \<and> lookup fs' (objects_dir root @ [id_rec r]) \<noteq> None
    \<and> readIndex fs' root = []
    \<and> file_text fs' (log_file root) = file_text fs (log_file root) @ log_line r @ [NL]
    \<and> (\<forall>n. lookup fs' (heads_dir root @ [n]) = lookup fs (heads_dir root @ [n]))
    \<and> currentBranch fs' root = currentBranch fs root
    \<and> branchHead fs' root (currentBranch fs' root) = []"
proof -
  define br where "br = currentBranch fs root"
  define body where "body = commit_body auth ts br (branchHead fs root br) msg (readIndex fs root)"
  define cid where "cid = sha256String H body"
  define r where "r = \<lparr>id_rec = cid, parent = branchHead fs root br, author = auth,
    timestamp = ts, message = msg, branch = br, files = readIndex fs root\<rparr>"
  define fs1 where "fs1 = AList.update (objects_dir root @ [cid]) (File (''id='' @ cid @ [NL] @ body)) fs"
  define fs3 where "fs3 = AList.update (index_file root) (File []) fs1"
  define fs' where "fs' = AList.update (log_file root)
    (File (file_text fs (log_file root) @ log_line r @ [NL])) fs3"
  have c: "file_name cid" unfolding cid_def by (rule sha256String_file_name)
  have od: "lookup fs (objects_dir root @ [cid]) \<noteq> Some Dir" by (rule object_not_Dir[OF sk])
  have sk1: "repo_skeleton fs1 root"
    unfolding fs1_def by (rule repo_skeleton_update_File[OF od sk])
  have id1: "lookup fs1 (index_file root) \<noteq> Some Dir" using sk1 by (simp add: repo_skeleton_def)
  have sk3: "repo_skeleton fs3 root"
    unfolding fs3_def by (rule repo_skeleton_update_File[OF id1 sk1])
  have ld3: "lookup fs3 (log_file root) \<noteq> Some Dir" using sk3 by (simp add: repo_skeleton_def)
  have sk': "repo_skeleton fs' root"
    unfolding fs'_def by (rule repo_skeleton_update_File[OF ld3 sk3])
  have r1: "resolve fs1 (slash (heads_dir root) br) = Some q"
    unfolding fs1_def using rq od by (simp add: br_def)
  have q1: "lookup fs1 q = Some Dir" using qd od by (auto simp: fs1_def)
  have r3: "resolve fs3 (slash (heads_dir root) br) = Some q"
    unfolding fs3_def using r1 id1 by simp
  have q3: "lookup fs3 q = Some Dir" using q1 id1 by (auto simp: fs3_def)
  have r': "resolve fs' (slash (heads_dir root) br) = Some q"
    unfolding fs'_def using r3 ld3 by simp
  have q': "lookup fs' q = Some Dir" using q3 ld3 by (auto simp: fs'_def)
  have 1: "or_unchanged fs (write_file fs (slash (objects_dir root) cid) (''id='' @ cid @ [NL] @ body)) = fs1"
    unfolding fs1_def by (rule write_object[OF sk c])
  have 2: "fst (updateBranchHead fs1 root br cid) = fs1"
    using updateBranchHead_directory[OF r1 q1] by simp
  have 3: "writeIndex fs1 root [] = fs3"
    unfolding fs3_def using writeIndex_skeleton[OF sk1, of "[]"] by (simp add: entry_lines_def)
  have l: "file_text fs3 (log_file root) = file_text fs (log_file root)"
    by (simp add: fs3_def fs1_def file_text_def log_file_def index_file_def objects_dir_def)
  have 4: "appendLog fs3 root r = fs'"
    unfolding fs'_def using appendLog_skeleton[OF sk3, of r] l by simp
  have "commit H ts fs root auth msg =
      Inr (appendLog (writeIndex (fst (updateBranchHead
        (or_unchanged fs (write_file fs (slash (objects_dir root) cid) (''id='' @ cid @ [NL] @ body)))
        root br cid)) root []) root r, r)"
    using ne by (simp add: commit_def Let_def r_def cid_def body_def br_def)
  also have "\<dots> = Inr (fs', r)" by (simp only: 1 2 3 4)
  finally have cm: "commit H ts fs root auth msg = Inr (fs', r)" .
  have i: "id_rec r \<noteq> []" by (simp add: r_def cid_def sha256String_not_Nil)
  have o: "lookup fs' (objects_dir root @ [id_rec r]) \<noteq> None"
    by (simp add: fs'_def fs3_def fs1_def r_def objects_dir_def index_file_def log_file_def)
  have ri: "readIndex fs' root = []"
    using readIndex_skeleton[OF sk']
    by (simp add: fs'_def fs3_def index_file_def log_file_def)
  have lg: "file_text fs' (log_file root) = file_text fs (log_file root) @ log_line r @ [NL]"
    by (simp add: fs'_def file_text_def)
  have hs: "\<forall>n. lookup fs' (heads_dir root @ [n]) = lookup fs (heads_dir root @ [n])"
    by (simp add: fs'_def fs3_def fs1_def heads_dir_def objects_dir_def index_file_def log_file_def)
  have hd: "lookup fs' (HEAD_file root) = lookup fs (HEAD_file root)"
    by (simp add: fs'_def fs3_def fs1_def HEAD_file_def objects_dir_def index_file_def log_file_def)
  have cb: "currentBranch fs' root = currentBranch fs root"
    using currentBranch_skeleton[OF sk'] currentBranch_skeleton[OF sk] hd by simp
  have bh: "branchHead fs' root (currentBranch fs' root) = []"
    unfolding cb using branchHead_directory[OF r' q'] by (simp add: br_def)
  show ?thesis using cm i o ri lg hs cb bh by blast
qed

theorem commit_ignores_ref_failure_witness:
  "repo_skeleton (staged_repo ''..'') []
   \<and> readIndex (staged_repo ''..'') [] \<noteq> []
   \<and> staged_repo ''..'' = setCurrentBranch (staged_repo ''main'') [] ''..''
   \<and> currentBranch (staged_repo ''..'') [] = ''..''
   \<and> resolve (staged_repo ''..'') (slash (heads_dir []) ''..'') = Some [''.glite'', ''refs'']
   \<and> lookup (staged_repo ''..'') [''.glite'', ''refs''] = Some Dir
   \<and> (\<exists>fs' r. commit length_hash ''2024-01-01T00:00:00'' (staged_repo ''..'') []
          ''alice'' ''first'' = Inr (fs', r)
        \<and> id_rec r \<noteq> []
        \<and> readIndex fs' [] = []
        \<and> lookup fs' (heads_dir [] @ [''main'']) = Some (File [])
        \<and> branchHead fs' [] ''main'' = []
        \<and> branchHead fs' [] (currentBranch fs' []) = [])"
proof -
  let ?fs = "staged_repo ''..''"
  have ne: "readIndex ?fs [] \<noteq> []" by code_simp
  have st: "?fs = setCurrentBranch (staged_repo ''main'') [] ''..''" by code_simp
  have cb: "currentBranch ?fs [] = ''..''" by code_simp
  have rq: "resolve ?fs (slash (heads_dir []) ''..'') = Some [''.glite'', ''refs'']" by code_simp
  have rq': "resolve ?fs (slash (heads_dir []) (currentBranch ?fs [])) = Some [''.glite'', ''refs'']"
    unfolding cb by (rule rq)
  have qd: "lookup ?fs [''.glite'', ''refs''] = Some Dir" by code_simp
  have m: "lookup ?fs (heads_dir [] @ [''main'']) = Some (File [])" by code_simp
  from commit_ignores_ref_failure[OF staged_repo_skeleton ne rq' qd, where H=length_hash
      and ts="''2024-01-01T00:00:00''" and auth="''alice''" and msg="''first''"]
  obtain fs' r where
    c: "commit length_hash ''2024-01-01T00:00:00'' ?fs [] ''alice'' ''first'' = Inr (fs', r)"
      "id_rec r \<noteq> []" "readIndex fs' [] = []"
      "\<forall>n. lookup fs' (heads_dir [] @ [n]) = lookup ?fs (heads_dir [] @ [n])"
      "branchHead fs' [] (currentBranch fs' []) = []"
    by blast
  have lm: "lookup fs' (heads_dir [] @ [''main'']) = Some (File [])" using c(4) m by simp
  have bm: "branchHead fs' [] ''main'' = []"
  proof -
    have "fs' = fst (projr (commit length_hash ''2024-01-01T00:00:00'' ?fs [] ''alice'' ''first''))"
      using c(1) by simp
    moreover have "branchHead (fst (projr (commit length_hash ''2024-01-01T00:00:00'' ?fs []
        ''alice'' ''first''))) [] ''main'' = []" by code_simp
    ultimately show ?thesis by simp
  qed
  show ?thesis using staged_repo_skeleton ne st cb rq qd c(1,2,3,5) lm bm by blast
qed

section \<open>Merge and revert\<close>

lemma branched_repo_skeleton: "repo_skeleton (branched_repo cur p) []"
  by (simp add: repo_skeleton_def dir_path_def flat_dir_def file_name_def lookup_def
      branched_repo_def objects_dir_def heads_dir_def HEAD_file_def index_file_def log_file_def)

lemma write_record_effect:
  assumes sk: "repo_skeleton fs root" and fn: "file_name cur" and c: "file_name (id_rec r)"
  shows "write_record fs root cur r =
    AList.update (log_file root) (File (file_text fs (log_file root) @ log_line r @ [NL]))
      (AList.update (heads_dir root @ [cur]) (File (id_rec r @ [NL]))
        (AList.update (objects_dir root @ [id_rec r]) (File (colon_record r)) fs))"
proof -
  define fs1 where "fs1 = AList.update (objects_dir root @ [id_rec r]) (File (colon_record r)) fs"
  define fs2 where "fs2 = AList.update (heads_dir root @ [cur]) (File (id_rec r @ [NL])) fs1"
  have sk1: "repo_skeleton fs1 root"
    unfolding fs1_def by (rule repo_skeleton_update_File[OF object_not_Dir[OF sk] sk])
  have sk2: "repo_skeleton fs2 root"
    unfolding fs2_def by (rule repo_skeleton_update_File[OF head_not_Dir[OF sk1] sk1])
  have 1: "or_unchanged fs (write_file fs (slash (objects_dir root) (id_rec r)) (colon_record r)) = fs1"
    unfolding fs1_def by (rule write_object[OF sk c])
  have 2: "fst (updateBranchHead fs1 root cur (id_rec r)) = fs2"
    unfolding fs2_def using updateBranchHead_file_name[OF sk1 fn, of "id_rec r"] by simp
  have l: "file_text fs2 (log_file root) = file_text fs (log_file root)"
    by (simp add: fs2_def fs1_def file_text_def log_file_def heads_dir_def objects_dir_def)
  have 3: "appendLog fs2 root r
      = AList.update (log_file root) (File (file_text fs (log_file root) @ log_line r @ [NL])) fs2"
    using appendLog_skeleton[OF sk2, of r] l by simp
  have "write_record fs root cur r = appendLog (fst (updateBranchHead
      (or_unchanged fs (write_file fs (slash (objects_dir root) (id_rec r)) (colon_record r)))
      root cur (id_rec r))) root r"
    by (simp add: write_record_def Let_def)
  also have "\<dots> = AList.update (log_file root)
      (File (file_text fs (log_file root) @ log_line r @ [NL])) fs2"
    by (simp only: 1 2 3)
  finally show ?thesis by (simp only: fs2_def fs1_def)
qed

lemma write_record_skeleton:
  assumes sk: "repo_skeleton fs root" and fn: "file_name cur" and c: "file_name (id_rec r)"
  shows "repo_skeleton (write_record fs root cur r) root"
proof -
  define fs1 where "fs1 = AList.update (objects_dir root @ [id_rec r]) (File (colon_record r)) fs"
  define fs2 where "fs2 = AList.update (heads_dir root @ [cur]) (File (id_rec r @ [NL])) fs1"
  have sk1: "repo_skeleton fs1 root"
    unfolding fs1_def by (rule repo_skeleton_update_File[OF object_not_Dir[OF sk] sk])
  have sk2: "repo_skeleton fs2 root"
    unfolding fs2_def by (rule repo_skeleton_update_File[OF head_not_Dir[OF sk1] sk1])
  have "repo_skeleton (AList.update (log_file root)
      (File (file_text fs (log_file root) @ log_line r @ [NL])) fs2) root"
    by (rule repo_skeleton_update_File[OF _ sk2]) (use sk2 in \<open>simp add: repo_skeleton_def\<close>)
  then show ?thesis
    by (simp only: write_record_effect[OF sk fn c] fs2_def fs1_def)
qed

lemma write_record_lookups:
  assumes sk: "repo_skeleton fs root" and fn: "file_name cur" and c: "file_name (id_rec r)"
  shows "lookup (write_record fs root cur r) (objects_dir root @ [id_rec r]) = Some (File (colon_record r))"
    and "lookup (write_record fs root cur r) (heads_dir root @ [cur]) = Some (File (id_rec r @ [NL]))"
    and "lookup (write_record fs root cur r) (HEAD_file root) = lookup fs (HEAD_file root)"
    and "lookup (write_record fs root cur r) (log_file root)
          = Some (File (file_text fs (log_file root) @ log_line r @ [NL]))"
  by (simp_all add: write_record_effect[OF sk fn c] objects_dir_def heads_dir_def HEAD_file_def
      log_file_def)

lemma mergeRecord_id: "id_rec (mergeRecord H ts1 ts2 fs root br)
    = sha256String H (branchHead fs root br @ branchHead fs root (currentBranch fs root) @ ts1)"
  by (simp add: mergeRecord_def Let_def)

lemma branchHead_after_write:
  assumes sk': "repo_skeleton fs' root" and fn: "file_name cur"
    and l: "lookup fs' (heads_dir root @ [cur]) = Some (File (sha256String H t @ [NL]))"
  shows "branchHead fs' root cur = sha256String H t"
  using branchHead_file_name[OF sk' fn] l trim_sha256String[of H t]
    getline_line[OF sha256String_no_NL[of H t], of "[]"]
  by simp

text \<open>
  \<open>mergeBranch\<close> drops the result of \<open>updateBranchHead\<close> as \<open>commit\<close> does: where
  \<open>HEAD\<close> names \<open>..\<close>, the merge of \<open>feature\<close> is reported as a success, and the head
  of the current branch is not the new id (no ref was written).
\<close>

theorem mergeBranch_ref_failure_example:
  "repo_skeleton (branched_repo ''..'' ''a.txt'') []
   \<and> currentBranch (branched_repo ''..'' ''a.txt'') [] = ''..''
   \<and> \<not> isl (mergeBranch length_hash ''t1'' ''t2'' (branched_repo ''..'' ''a.txt'') [] ''feature'')
   \<and> branchHead (projr (mergeBranch length_hash ''t1'' ''t2'' (branched_repo ''..'' ''a.txt'') []
        ''feature'')) [] ''..'' = []
   \<and> id_rec (mergeRecord length_hash ''t1'' ''t2'' (branched_repo ''..'' ''a.txt'') [] ''feature'')
        \<noteq> []"
proof -
  let ?fs = "branched_repo ''..'' ''a.txt''"
  have 1: "currentBranch ?fs [] = ''..''" by code_simp
  have 2: "\<not> isl (mergeBranch length_hash ''t1'' ''t2'' ?fs [] ''feature'')" by code_simp
  have 3: "branchHead (projr (mergeBranch length_hash ''t1'' ''t2'' ?fs [] ''feature'')) [] ''..'' = []"
    by code_simp
  have 4: "id_rec (mergeRecord length_hash ''t1'' ''t2'' ?fs [] ''feature'') \<noteq> []"
    unfolding mergeRecord_id by (rule sha256String_not_Nil)
  show ?thesis using branched_repo_skeleton 1 2 3 4 by blast
qed

subsection \<open>The id of a merge commit\<close>

lemma hex_digit_inj:
  assumes "m < 16" and "n < 16" and "hex_digit m = hex_digit n"
  shows "m = n"
proof -
  have d: "distinct ''0123456789abcdef''" by simp
  have "''0123456789abcdef'' ! m = ''0123456789abcdef'' ! n"
    using assms by (simp only: hex_digit_def if_True)
  moreover have "m < length ''0123456789abcdef''" "n < length ''0123456789abcdef''"
    using assms(1,2) by simp_all
  ultimately show ?thesis using d nth_eq_iff_index_eq by blast
qed

lemma hex_byte_inj:
  assumes "hex_byte a = hex_byte b"
  shows "a = b"
proof -
  have a: "unat a < 256" and b: "unat b < 256"
    using unsigned_less[of a] unsigned_less[of b] by simp_all
  have "unat a div 16 = unat b div 16"
    using assms a b hex_digit_inj[of "unat a div 16" "unat b div 16"] by (simp add: hex_byte_def)
  moreover have "unat a mod 16 = unat b mod 16"
    using assms hex_digit_inj[of "unat a mod 16" "unat b mod 16"] by (simp add: hex_byte_def)
  ultimately have "unat a = unat b" by (metis div_mult_mod_eq)
  then show ?thesis by (rule word_unat_eq_iff[THEN iffD2])
qed

lemma toHex_Suc: "toHex d (Suc n) = toHex d n @ hex_byte (d n)"
  by (simp add: toHex_def)

lemma toHex_inj: "toHex d n = toHex d' n \<Longrightarrow> i < n \<Longrightarrow> d i = d' i"
proof (induction n)
  case 0
  then show ?case by simp
next
  case (Suc n)
  have "length (toHex d n) = length (toHex d' n)" by (simp add: length_toHex)
  with Suc.prems(1) have e: "toHex d n = toHex d' n" "hex_byte (d n) = hex_byte (d' n)"
    by (simp_all add: toHex_Suc)
  show ?case
  proof (cases "i = n")
    case True
    then show ?thesis using hex_byte_inj[OF e(2)] by simp
  next
    case False
    then show ?thesis using Suc.IH[OF e(1)] Suc.prems(2) by simp
  qed
qed

lemma sha256String_neq:
  "i < crypto_hash_sha256_BYTES \<Longrightarrow> H a i \<noteq> H b i \<Longrightarrow> sha256String H a \<noteq> sha256String H b"
  using toHex_inj[of "H a" crypto_hash_sha256_BYTES "H b" i]
  by (auto simp: sha256String_def sha256Bytes_def)

lemma first_line_no_NL: "first_line fs p = Some l \<Longrightarrow> NL \<notin> set l"
  by (auto simp: first_line_def split: option.splits dest: getline_fst_no_delim)

lemma branchHead_no_NL: "NL \<notin> set (branchHead fs root b)"
proof (cases "first_line fs (slash (heads_dir root) b)")
  case None
  then show ?thesis by (simp add: branchHead_def)
next
  case (Some l)
  then show ?thesis
    using first_line_no_NL[OF Some] set_trim[of l] by (auto simp: branchHead_def)
qed

text \<open>
  C2 fails on the code for the records of \<open>mergeBranch\<close> (and of \<open>revertCommit\<close>, which
  forms its id the same way): the stored id is the digest of the two heads and the clock
  text, a text that is never the body written below the id line; so the id is the digest
  of the body only where the digest function collides on the two texts.
\<close>

theorem mergeBranch_id_not_body_digest:
  fixes H :: sha256 and ts1 ts2 br :: string
  assumes sk: "repo_skeleton fs root" and fn: "file_name (currentBranch fs root)"
    and ok: "\<not> isl (mergeBranch H ts1 ts2 fs root br)"
    and ts: "NL \<notin> set ts1"
  shows "\<exists>fs' cid body hashed.
      mergeBranch H ts1 ts2 fs root br = Inr fs'
    \<and> lookup fs' (objects_dir root @ [cid]) = Some (File (''id: '' @ cid @ [NL] @ body))
    \<and> hashed = branchHead fs root br @ branchHead fs root (currentBranch fs root) @ ts1
    \<and> cid = sha256String H hashed
    \<and> hashed \<noteq> body
    \<and> ((\<exists>i<crypto_hash_sha256_BYTES. H hashed i \<noteq> H body i) \<longrightarrow> cid \<noteq> sha256String H body)"
proof -
  define r where "r = mergeRecord H ts1 ts2 fs root br"
  define hashed where "hashed = branchHead fs root br @ branchHead fs root (currentBranch fs root) @ ts1"
  have c: "file_name (id_rec r)"
    unfolding r_def mergeRecord_id by (rule sha256String_file_name)
  have m: "mergeBranch H ts1 ts2 fs root br = Inr (write_record fs root (currentBranch fs root) r)"
    using ok by (auto simp: mergeBranch_def Let_def r_def split: if_splits)
  have o: "lookup (write_record fs root (currentBranch fs root) r) (objects_dir root @ [id_rec r])
      = Some (File (''id: '' @ id_rec r @ [NL] @ colon_body r))"
    using write_record_lookups(1)[OF sk fn c] by (simp add: colon_record_def)
  have i: "id_rec r = sha256String H hashed" by (simp add: r_def mergeRecord_id hashed_def)
  have "NL \<notin> set hashed"
    using ts branchHead_no_NL[of fs root] by (simp add: hashed_def)
  moreover have "NL \<in> set (colon_body r)" by (simp add: colon_body_def)
  ultimately have ne: "hashed \<noteq> colon_body r" by auto
  have "(\<exists>i<crypto_hash_sha256_BYTES. H hashed i \<noteq> H (colon_body r) i)
      \<longrightarrow> id_rec r \<noteq> sha256String H (colon_body r)"
    using sha256String_neq[of _ H hashed "colon_body r"] i by auto
  with m o i ne show ?thesis unfolding hashed_def by blast
qed

theorem mergeBranch_id_not_body_digest_witness:
  "repo_skeleton (branched_repo ''main'' ''a.txt'') []
   \<and> file_name (currentBranch (branched_repo ''main'' ''a.txt'') [])
   \<and> \<not> isl (mergeBranch length_hash ''t1'' ''t2'' (branched_repo ''main'' ''a.txt'') [] ''feature'')
   \<and> NL \<notin> set ''t1''
   \<and> (\<exists>fs' cid body.
        mergeBranch length_hash ''t1'' ''t2'' (branched_repo ''main'' ''a.txt'') [] ''feature'' = Inr fs'
      \<and> lookup fs' (objects_dir [] @ [cid]) = Some (File (''id: '' @ cid @ [NL] @ body))
      \<and> cid = sha256String length_hash ''c1t1''
      \<and> ''c1t1'' \<noteq> body)"
proof -
  let ?fs = "branched_repo ''main'' ''a.txt''"
  have cb: "currentBranch ?fs [] = ''main''" by code_simp
  have fn: "file_name (currentBranch ?fs [])" unfolding cb by (simp add: file_name_def)
  have ok: "\<not> isl (mergeBranch length_hash ''t1'' ''t2'' ?fs [] ''feature'')" by code_simp
  have ts: "NL \<notin> set ''t1''" by simp
  have h: "branchHead ?fs [] ''feature'' @ branchHead ?fs [] (currentBranch ?fs []) @ ''t1'' = ''c1t1''"
    by code_simp
  from mergeBranch_id_not_body_digest[OF branched_repo_skeleton fn ok ts]
  obtain fs' cid body where "mergeBranch length_hash ''t1'' ''t2'' ?fs [] ''feature'' = Inr fs'"
    "lookup fs' (objects_dir [] @ [cid]) = Some (File (''id: '' @ cid @ [NL] @ body))"
    "cid = sha256String length_hash
        (branchHead ?fs [] ''feature'' @ branchHead ?fs [] (currentBranch ?fs []) @ ''t1'')"
    "branchHead ?fs [] ''feature'' @ branchHead ?fs [] (currentBranch ?fs []) @ ''t1'' \<noteq> body"
    by blast
  then show ?thesis using branched_repo_skeleton fn ok ts unfolding h by blast
qed

subsection \<open>Reading back a record written by merge or revert\<close>

lemma readCommit_lines_inert:
  "\<forall>l\<in>set ls. inert l \<Longrightarrow> readCommit_lines ls False r = r"
  by (induction ls) (auto simp: inert_def Let_def)

lemma inert_file_line:
  assumes "\<not> header_like p"
  shows "inert (p @ TAB # b)"
proof -
  have 1: "take 3 (p @ TAB # b) \<noteq> ''id=''"
  proof (cases "length p < 3")
    case True
    then have t: "TAB \<in> set (take 3 (p @ TAB # b))"
      by (auto simp: take_Cons' in_set_conv_decomp)
    show ?thesis
    proof
      assume eq: "take 3 (p @ TAB # b) = ''id=''"
      from t have "TAB \<in> set ''id=''" unfolding eq .
      then show False by simp
    qed
  next
    case False
    then show ?thesis using assms by (simp add: header_like_def)
  qed
  have 2: "p @ TAB # b \<noteq> ''files:''"
  proof
    assume "p @ TAB # b = ''files:''"
    then have "TAB \<in> set ''files:''" by (metis in_set_conv_decomp)
    then show False by simp
  qed
  have 3: "takeWhile (\<lambda>c. c \<noteq> CHR ''='') (p @ TAB # b)
      \<notin> {''author'', ''timestamp'', ''branch'', ''parent'', ''message''}"
  proof (cases "CHR ''='' \<in> set p")
    case True
    have "takeWhile (\<lambda>c. c \<noteq> CHR ''='') (p @ TAB # b) = takeWhile (\<lambda>c. c \<noteq> CHR ''='') p"
      by (rule takeWhile_append1[OF True]) simp
    then show ?thesis using assms True by (simp add: header_like_def)
  next
    case False
    then have "\<forall>x\<in>set p. x \<noteq> CHR ''=''" by auto
    then have "takeWhile (\<lambda>c. c \<noteq> CHR ''='') (p @ TAB # b)
        = p @ takeWhile (\<lambda>c. c \<noteq> CHR ''='') (TAB # b)"
      by (simp add: takeWhile_append2)
    then have t: "TAB \<in> set (takeWhile (\<lambda>c. c \<noteq> CHR ''='') (p @ TAB # b))" by simp
    show ?thesis
    proof
      assume "takeWhile (\<lambda>c. c \<noteq> CHR ''='') (p @ TAB # b)
        \<in> {''author'', ''timestamp'', ''branch'', ''parent'', ''message''}"
      with t have "TAB \<in> set ''author'' \<or> TAB \<in> set ''timestamp'' \<or> TAB \<in> set ''branch''
          \<or> TAB \<in> set ''parent'' \<or> TAB \<in> set ''message''" by auto
      then show False by simp
    qed
  qed
  show ?thesis using 1 2 3 by (simp add: inert_def)
qed

lemma inert_headers:
  "inert (''id: '' @ x)" "inert (''parent: '' @ x)" "inert (''author: '' @ x)"
  "inert (''timestamp: '' @ x)" "inert (''branch: '' @ x)" "inert (''message: '' @ x)"
  by (simp_all add: inert_def)

lemma read_items_entry_lines:
  "\<forall>(p, b)\<in>set es. NL \<notin> set p \<and> NL \<notin> set b \<Longrightarrow>
    read_items NL (entry_lines es) = map (\<lambda>(p, b). p @ TAB # b) es"
proof (induction es)
  case Nil
  then show ?case by (simp add: entry_lines_def)
next
  case (Cons e es)
  obtain p b where e: "e = (p, b)" by (cases e)
  have n: "NL \<notin> set (p @ TAB # b)" using Cons.prems e by simp
  have "entry_lines (e # es) = (p @ TAB # b) @ NL # entry_lines es"
    by (simp add: entry_lines_def e)
  then show ?case using read_items_line[OF n, of "entry_lines es"] Cons e by simp
qed

text \<open>A record whose texts are single lines and whose paths are not taken for headers.\<close>

lemma read_items_colon_record:
  assumes "NL \<notin> set (id_rec r)" "NL \<notin> set (parent r)" "NL \<notin> set (author r)"
    "NL \<notin> set (timestamp r)" "NL \<notin> set (branch r)" "NL \<notin> set (message r)"
    "\<forall>(p, b)\<in>set (files r). NL \<notin> set p \<and> NL \<notin> set b"
  shows "read_items NL (colon_record r) =
    [''id: '' @ id_rec r, ''parent: '' @ (if parent r = [] then ''null'' else parent r),
     ''author: '' @ author r, ''timestamp: '' @ timestamp r, ''branch: '' @ branch r,
     ''message: '' @ message r] @ map (\<lambda>(p, b). p @ TAB # b) (files r)"
proof -
  let ?p = "if parent r = [] then ''null'' else parent r"
  have p: "NL \<notin> set ?p" using assms(2) by simp
  have 1: "NL \<notin> set (''id: '' @ id_rec r)" using assms(1) by simp
  have 2: "NL \<notin> set (''parent: '' @ ?p)" using p by simp
  have 3: "NL \<notin> set (''author: '' @ author r)" using assms(3) by simp
  have 4: "NL \<notin> set (''timestamp: '' @ timestamp r)" using assms(4) by simp
  have 5: "NL \<notin> set (''branch: '' @ branch r)" using assms(5) by simp
  have 6: "NL \<notin> set (''message: '' @ message r)" using assms(6) by simp
  have "colon_record r = (''id: '' @ id_rec r) @ NL # (''parent: '' @ ?p) @ NL #
      (''author: '' @ author r) @ NL # (''timestamp: '' @ timestamp r) @ NL #
      (''branch: '' @ branch r) @ NL # (''message: '' @ message r) @ NL # entry_lines (files r)"
    by (simp add: colon_record_def colon_body_def)
  then show ?thesis
    by (simp only: read_items_line[OF 1] read_items_line[OF 2] read_items_line[OF 3]
        read_items_line[OF 4] read_items_line[OF 5] read_items_line[OF 6]
        read_items_entry_lines[OF assms(7)]) simp
qed

lemma readCommit_lines_colon_record:
  assumes "NL \<notin> set (id_rec r)" "NL \<notin> set (parent r)" "NL \<notin> set (author r)"
    "NL \<notin> set (timestamp r)" "NL \<notin> set (branch r)" "NL \<notin> set (message r)"
    "\<forall>(p, b)\<in>set (files r). NL \<notin> set p \<and> NL \<notin> set b"
    "\<forall>(p, b)\<in>set (files r). \<not> header_like p"
  shows "readCommit_lines (read_items NL (colon_record r)) False r0 = r0"
proof (rule readCommit_lines_inert)
  show "\<forall>l\<in>set (read_items NL (colon_record r)). inert l"
    unfolding read_items_colon_record[OF assms(1-7)]
    using assms(8) inert_headers inert_file_line by auto
qed

lemma split_parts_subset: "split line d = [a, b] \<Longrightarrow> set a \<subseteq> set line \<and> set b \<subseteq> set line"
  using read_items_subset[of a d line] read_items_subset[of b d line] by (simp add: split_def)








section \<open>Staging\<close>

lemma sha256Bytes_file_name: "file_name (sha256Bytes H t)"
  using sha256String_file_name[of H t] by (simp add: sha256String_def)

lemma replace_blob_subset:
  "(p, b) \<in> set (fst (replace_blob es rel blob)) \<Longrightarrow> (p, b) \<in> set es \<or> (p, b) = (rel, blob)"
  by (induction es) (auto simp: Let_def split: prod.splits if_splits)

lemma replace_blob_replaced:
  "snd (replace_blob es rel blob) \<Longrightarrow> (rel, blob) \<in> set (fst (replace_blob es rel blob))"
  by (induction es) (auto simp: Let_def split: prod.splits if_splits)

lemma staged_entries_mem: "(rel, blob) \<in> set (staged_entries es rel blob)"
proof (cases "replace_blob es rel blob")
  case (Pair es' replaced)
  then show ?thesis
    using replace_blob_replaced[of es rel blob] by (cases replaced) (simp_all add: staged_entries_def)
qed

lemma staged_entries_subset:
  "(p, b) \<in> set (staged_entries es rel blob) \<Longrightarrow> (p, b) \<in> set es \<or> (p, b) = (rel, blob)"
proof (cases "replace_blob es rel blob")
  case (Pair es' replaced)
  assume "(p, b) \<in> set (staged_entries es rel blob)"
  then have "(p, b) \<in> set es' \<or> (p, b) = (rel, blob)"
    using Pair by (cases replaced) (auto simp: staged_entries_def)
  then show ?thesis using replace_blob_subset[of p b es rel blob] Pair by auto
qed

lemma index_entries_no_NL:
  "\<forall>l\<in>set ls. NL \<notin> set l \<Longrightarrow> (p, b) \<in> set (index_entries ls) \<Longrightarrow> NL \<notin> set p \<and> NL \<notin> set b"
proof (induction ls)
  case Nil
  then show ?case by simp
next
  case (Cons l ls)
  have ih: "(p, b) \<in> set (index_entries ls) \<Longrightarrow> NL \<notin> set p \<and> NL \<notin> set b"
    using Cons.IH Cons.prems(1) by simp
  have n: "NL \<notin> set l" using Cons.prems(1) by simp
  show ?case
  proof (cases "(p, b) \<in> set (index_entries ls)")
    case True
    then show ?thesis by (rule ih)
  next
    case False
    then have "split l TAB = [p, b]"
      using Cons.prems(2) by (auto split: if_splits list.splits)
    from split_parts_subset[OF this] n show ?thesis by auto
  qed
qed

lemma readIndex_no_NL: "(p, b) \<in> set (readIndex fs root) \<Longrightarrow> NL \<notin> set p \<and> NL \<notin> set b"
proof -
  assume a: "(p, b) \<in> set (readIndex fs root)"
  show ?thesis
  proof (cases "read_file fs (index_file root)")
    case None
    then show ?thesis using a by (simp add: readIndex_def)
  next
    case (Some c)
    then have m: "(p, b) \<in> set (index_entries (read_items NL c))"
      using a by (simp add: readIndex_def)
    have "\<forall>l\<in>set (read_items NL c). NL \<notin> set l" using read_items_no_delim by blast
    from index_entries_no_NL[OF this m] show ?thesis .
  qed
qed

lemma split_entry:
  assumes "TAB \<notin> set p" and "TAB \<notin> set b" and "b \<noteq> []"
  shows "split (p @ TAB # b) TAB = [p, b]"
  using read_items_line[OF assms(1), of b] read_items_last[OF assms(3,2)]
  by (simp add: split_def)

lemma index_entries_mem:
  assumes "TAB \<notin> set p" and "TAB \<notin> set b" and "b \<noteq> []"
  shows "(p, b) \<in> set es \<Longrightarrow> (p, b) \<in> set (index_entries (map (\<lambda>(p, b). p @ TAB # b) es))"
proof (induction es)
  case Nil
  then show ?case by simp
next
  case (Cons e es)
  obtain q c where e: "e = (q, c)" by (cases e)
  show ?case
  proof (cases "(p, b) = e")
    case True
    then show ?thesis using split_entry[OF assms] e by simp
  next
    case False
    then have "(p, b) \<in> set (index_entries (map (\<lambda>(p, b). p @ TAB # b) es))"
      using Cons by simp
    then show ?thesis using e by (auto split: list.splits)
  qed
qed

text \<open>
  C6 fails on the code: \<open>addFile\<close> never looks at the components of the path. For every
  path \<open>../rest\<close> (it leaves \<open>workspace/\<close>) that leads to a regular file, the call
  succeeds: the bytes of that file outside the workspace are read and stored as the
  object named by their digest (unless an object of that name exists already), and the
  index read back holds the path with that digest. The menu (\<open>addFileToRepo\<close>) hands the
  path it prompts for to \<open>addFile\<close> as it is.
\<close>

theorem addFile_path_escape:
  fixes H :: sha256 and rest :: string
  assumes sk: "repo_skeleton fs root"
    and r: "read_file fs (slash (workspace_dir root) (''../'' @ rest)) = Some bytes"
    and clean: "TAB \<notin> set rest" "NL \<notin> set rest"
  shows "\<exists>fs'. addFile H fs root (''../'' @ rest) = Inr fs'
    \<and> lookup fs' (objects_dir root @ [sha256Bytes H bytes])
        = (if lookup fs (objects_dir root @ [sha256Bytes H bytes]) = None
           then Some (File bytes)
           else lookup fs (objects_dir root @ [sha256Bytes H bytes]))
    \<and> (''../'' @ rest, sha256Bytes H bytes) \<in> set (readIndex fs' root)"
proof -
  define rel where "rel = ''../'' @ rest"
  define blob where "blob = sha256Bytes H bytes"
  define obj where "obj = objects_dir root @ [blob]"
  define fs1 where "fs1 = (if lookup fs obj = None then AList.update obj (File bytes) fs else fs)"
  define es where "es = staged_entries (readIndex fs root) rel blob"
  define fs' where "fs' = AList.update (index_file root) (File (entry_lines es)) fs1"
  have r': "read_file fs (slash (workspace_dir root) rel) = Some bytes" using r by (simp add: rel_def)
  have b: "file_name blob" unfolding blob_def by (rule sha256Bytes_file_name)
  from r' obtain f where f: "resolve fs (slash (workspace_dir root) rel) = Some f"
    "lookup fs f = Some (File bytes)"
    by (auto simp: read_file_def split: option.splits node.splits)
  have ex: "fs_exists fs (slash (workspace_dir root) rel)" using f by (simp add: fs_exists_def)
  have h: "sha256File H fs (slash (workspace_dir root) rel) = Some blob"
    using r' by (simp add: sha256File_def blob_def)
  have ro: "resolve fs (slash (objects_dir root) blob) = Some obj"
    unfolding obj_def by (rule resolve_object[OF sk b])
  have eo: "fs_exists fs (slash (objects_dir root) blob) \<longleftrightarrow> lookup fs obj \<noteq> None"
    using ro by (simp add: fs_exists_def)
  have cp: "(if \<not> fs_exists fs (slash (objects_dir root) blob)
      then copy_file fs (slash (workspace_dir root) rel) (slash (objects_dir root) blob) False
      else Some fs) = Some fs1"
    using f ro eo by (auto simp: copy_file_def fs1_def)
  have nd: "lookup fs obj \<noteq> Some Dir" unfolding obj_def by (rule object_not_Dir[OF sk])
  have sk1: "repo_skeleton fs1 root"
    unfolding fs1_def using repo_skeleton_update_File[OF nd sk] sk by simp
  have ri: "readIndex fs1 root = readIndex fs root"
    using readIndex_skeleton[OF sk1] readIndex_skeleton[OF sk]
    by (simp add: fs1_def obj_def index_file_def objects_dir_def)
  have a: "addFile H fs root rel = Inr fs'"
    using ex h cp ri writeIndex_skeleton[OF sk1, of es]
    by (simp add: addFile_def Let_def fs'_def es_def)
  have id1: "lookup fs1 (index_file root) \<noteq> Some Dir" using sk1 by (simp add: repo_skeleton_def)
  have sk': "repo_skeleton fs' root"
    unfolding fs'_def by (rule repo_skeleton_update_File[OF id1 sk1])
  have o: "lookup fs' obj = (if lookup fs obj = None then Some (File bytes) else lookup fs obj)"
    by (simp add: fs'_def fs1_def obj_def index_file_def objects_dir_def)
  have bl: "TAB \<notin> set blob" "NL \<notin> set blob" "blob \<noteq> []"
    using sha256String_no_TAB[of H bytes] sha256String_no_NL[of H bytes]
      sha256String_not_Nil[of H bytes]
    by (simp_all add: blob_def sha256String_def)
  have rl: "TAB \<notin> set rel" "NL \<notin> set rel" using clean by (simp_all add: rel_def)
  have nn: "\<forall>(p, b)\<in>set es. NL \<notin> set p \<and> NL \<notin> set b"
  proof (clarify)
    fix p c assume "(p, c) \<in> set es"
    then have "(p, c) \<in> set (readIndex fs root) \<or> (p, c) = (rel, blob)"
      unfolding es_def by (rule staged_entries_subset)
    then show "NL \<notin> set p \<and> NL \<notin> set c"
      using readIndex_no_NL[of p c fs root] rl(2) bl(2) by auto
  qed
  have "readIndex fs' root = index_entries (read_items NL (entry_lines es))"
    using readIndex_skeleton[OF sk'] by (simp add: fs'_def)
  also have "\<dots> = index_entries (map (\<lambda>(p, b). p @ TAB # b) es)"
    by (simp only: read_items_entry_lines[OF nn])
  finally have "(rel, blob) \<in> set (readIndex fs' root)"
    using index_entries_mem[OF rl(1) bl(1,3), of es] staged_entries_mem[of rel blob "readIndex fs root"]
    by (simp add: es_def)
  then show ?thesis using a o unfolding rel_def blob_def obj_def by blast
qed

theorem addFile_path_escape_witness:
  "repo_skeleton (staged_repo ''main'') []
   \<and> read_file (staged_repo ''main'') (slash (workspace_dir []) (''../'' @ ''.glite/HEAD''))
        = Some (''ref: main'' @ [NL])
   \<and> TAB \<notin> set ''.glite/HEAD'' \<and> NL \<notin> set ''.glite/HEAD''
   \<and> lookup (staged_repo ''main'')
        (objects_dir [] @ [sha256Bytes length_hash (''ref: main'' @ [NL])]) = None
   \<and> (\<exists>fs'. addFile length_hash (staged_repo ''main'') [] ''../.glite/HEAD'' = Inr fs'
        \<and> lookup fs' (objects_dir [] @ [sha256Bytes length_hash (''ref: main'' @ [NL])])
            = Some (File (''ref: main'' @ [NL]))
        \<and> (''../.glite/HEAD'', sha256Bytes length_hash (''ref: main'' @ [NL]))
            \<in> set (readIndex fs' []))"
proof -
  let ?fs = "staged_repo ''main''"
  have r: "read_file ?fs (slash (workspace_dir []) (''../'' @ ''.glite/HEAD'')) = Some (''ref: main'' @ [NL])"
    by code_simp
  have c: "TAB \<notin> set ''.glite/HEAD''" "NL \<notin> set ''.glite/HEAD''" by simp_all
  have n: "lookup ?fs (objects_dir [] @ [sha256Bytes length_hash (''ref: main'' @ [NL])]) = None"
    by code_simp
  from addFile_path_escape[OF staged_repo_skeleton r c, where H=length_hash] n
  have "\<exists>fs'. addFile length_hash ?fs [] ''../.glite/HEAD'' = Inr fs'
        \<and> lookup fs' (objects_dir [] @ [sha256Bytes length_hash (''ref: main'' @ [NL])])
            = Some (File (''ref: main'' @ [NL]))
        \<and> (''../.glite/HEAD'', sha256Bytes length_hash (''ref: main'' @ [NL]))
            \<in> set (readIndex fs' [])"
    by simp
  then show ?thesis using staged_repo_skeleton r c n by blast
qed

section \<open>The current branch\<close>

lemma setCurrentBranch_skeleton:
  assumes "repo_skeleton fs root"
  shows "setCurrentBranch fs root b = AList.update (HEAD_file root) (File (''ref: '' @ b @ [NL])) fs"
proof -
  have "lookup fs (HEAD_file root) \<noteq> Some Dir" using assms by (simp add: repo_skeleton_def)
  from write_file_resolved[OF resolve_HEAD[OF assms] this] show ?thesis
    by (simp add: setCurrentBranch_def or_unchanged_def)
qed

lemma trim_no_ws_ends:
  assumes "s \<noteq> []" and "\<not> is_ws (hd s)" and "\<not> is_ws (last s)"
  shows "trim s = s"
proof -
  have 1: "dropWhile is_ws s = s" using assms(1,2) by (cases s) auto
  obtain x xs where r: "rev s = x # xs" using assms(1) by (cases "rev s") auto
  then have "x = last s" using assms(1) by (metis hd_rev list.sel(1))
  then have 2: "dropWhile is_ws (rev s) = rev s" unfolding r using assms(3) by simp
  show ?thesis by (simp add: trim_def 1 2)
qed

lemma currentBranch_set:
  assumes sk: "repo_skeleton fs root" and ws: "\<forall>c\<in>set b. \<not> is_ws c"
  shows "currentBranch (setCurrentBranch fs root b) root = b"
proof -
  let ?fs = "setCurrentBranch fs root b"
  have nd: "lookup fs (HEAD_file root) \<noteq> Some Dir" using sk by (simp add: repo_skeleton_def)
  have sk': "repo_skeleton ?fs root"
    unfolding setCurrentBranch_skeleton[OF sk] by (rule repo_skeleton_update_File[OF nd sk])
  have l: "lookup ?fs (HEAD_file root) = Some (File ((''ref: '' @ b) @ NL # []))"
    unfolding setCurrentBranch_skeleton[OF sk] by simp
  have n: "NL \<notin> set (''ref: '' @ b)" using ws by (auto simp: is_ws_def)
  have c: "currentBranch ?fs root
      = (if take 4 (trim (''ref: '' @ b)) = ''ref:'' then trim (drop 4 (trim (''ref: '' @ b)))
         else ''main'')"
    unfolding currentBranch_skeleton[OF sk'] l
    by (simp only: option.case node.case getline_line[OF n] prod.case)
  show ?thesis
  proof (cases "b = []")
    case True
    have "trim ''ref: '' = ''ref:''" by (simp add: trim_def is_ws_def)
    then show ?thesis using c True by (simp add: trim_def)
  next
    case False
    have "\<not> is_ws (last (''ref: '' @ b))" using False ws by simp
    then have t: "trim (''ref: '' @ b) = ''ref: '' @ b"
      by (intro trim_no_ws_ends) (simp_all add: is_ws_def)
    have "trim (CHR '' '' # b) = trim b" by (simp add: trim_def is_ws_def)
    then have "trim (drop 4 (''ref: '' @ b)) = b" using trim_id[OF ws] by simp
    then show ?thesis using c t by simp
  qed
qed

subsection \<open>Creating directories\<close>

lemma mkdirs_names:
  "list_all file_name xs \<Longrightarrow> (\<And>ys. strict_prefix ys xs \<Longrightarrow> lookup fs (cur @ ys) = Some Dir)
    \<Longrightarrow> mkdirs fs cur (xs @ zs) = mkdirs fs (cur @ xs) zs"
proof (induction xs arbitrary: cur)
  case Nil
  then show ?case by simp
next
  case (Cons x xs)
  have d: "lookup fs cur = Some Dir" using Cons.prems(2)[of "[]"] by simp
  have x: "x \<noteq> []" "x \<noteq> ''.''" "x \<noteq> ''..''" using Cons.prems(1) by (auto simp: file_name_def)
  have "mkdirs fs (cur @ [x]) (xs @ zs) = mkdirs fs ((cur @ [x]) @ xs) zs"
  proof (rule Cons.IH)
    show "list_all file_name xs" using Cons.prems(1) by simp
  next
    fix ys assume "strict_prefix ys xs"
    then have "strict_prefix (x # ys) (x # xs)" by simp
    from Cons.prems(2)[OF this] show "lookup fs ((cur @ [x]) @ ys) = Some Dir" by simp
  qed
  then show ?case using d x by simp
qed

lemma create_directories_child:
  assumes "dir_path fs d" and "file_name n"
  shows "create_directories fs (d @ [n]) =
    (case lookup fs (d @ [n]) of
       Some (File c) \<Rightarrow> None
     | Some Dir \<Rightarrow> Some fs
     | None \<Rightarrow> Some (AList.update (d @ [n]) Dir fs))"
proof -
  have p: "\<And>ys. strict_prefix ys (d @ [n]) \<Longrightarrow> lookup fs ([] @ ys) = Some Dir"
    using dir_path_prefix[OF assms(1)] by (auto simp: strict_prefix_def prefix_snoc)
  have "list_all file_name (d @ [n])" using assms by (simp add: dir_path_def)
  from mkdirs_names[OF this p, of "[]"] show ?thesis
    by (simp add: create_directories_def split: option.splits node.splits)
qed

lemma dir_path_update_Dir: "dir_path fs p \<Longrightarrow> dir_path (AList.update q Dir fs) p"
  by (auto simp: dir_path_def list_all_iff)

subsection \<open>Runs that differ in \<open>HEAD\<close> only\<close>

lemma same_except_update:
  "same_except h a b \<Longrightarrow> same_except h (AList.update p v a) (AList.update p v b)"
  by (simp add: same_except_def)

lemma same_except_lookup: "same_except h a b \<Longrightarrow> p \<noteq> h \<Longrightarrow> lookup a p = lookup b p"
  by (simp add: same_except_def)

lemma HEAD_neq [simp]:
  "objects_dir root @ [n] \<noteq> HEAD_file root" "heads_dir root @ [n] \<noteq> HEAD_file root"
  "tags_dir root @ [n] \<noteq> HEAD_file root" "tags_dir root \<noteq> HEAD_file root"
  "index_file root \<noteq> HEAD_file root" "log_file root \<noteq> HEAD_file root"
  by (simp_all add: objects_dir_def heads_dir_def tags_dir_def index_file_def log_file_def
      HEAD_file_def)

lemma pair_branchHead:
  assumes "same_except (HEAD_file root) a b" "repo_skeleton a root" "repo_skeleton b root"
    "file_name n"
  shows "branchHead a root n = branchHead b root n"
  using branchHead_file_name[OF assms(2,4)] branchHead_file_name[OF assms(3,4)]
    same_except_lookup[OF assms(1), of "heads_dir root @ [n]"] by simp

lemma pair_readIndex:
  assumes "same_except (HEAD_file root) a b" "repo_skeleton a root" "repo_skeleton b root"
  shows "readIndex a root = readIndex b root"
  using readIndex_skeleton[OF assms(2)] readIndex_skeleton[OF assms(3)]
    same_except_lookup[OF assms(1), of "index_file root"] by simp

lemma pair_log:
  assumes "same_except (HEAD_file root) a b"
  shows "file_text a (log_file root) = file_text b (log_file root)"
  using same_except_lookup[OF assms(1), of "log_file root"] by (simp add: file_text_def)

lemma pair_readCommit:
  assumes "same_except (HEAD_file root) a b" "repo_skeleton a root" "repo_skeleton b root"
    "file_name c"
  shows "readCommit a root c = readCommit b root c"
  using read_file_resolved[OF resolve_object[OF assms(2,4)]]
    read_file_resolved[OF resolve_object[OF assms(3,4)]]
    same_except_lookup[OF assms(1), of "objects_dir root @ [c]"]
  by (simp add: readCommit_def)

lemma agree_commit:
  fixes H :: sha256 and ts auth msg :: string
  assumes e: "same_except (HEAD_file root) a b" and ska: "repo_skeleton a root"
    and skb: "repo_skeleton b root"
    and cb: "currentBranch a root = currentBranch b root" and fn: "file_name (currentBranch a root)"
  shows "agree (HEAD_file root) (map_sum id fst (commit H ts a root auth msg))
      (map_sum id fst (commit H ts b root auth msg))
    \<and> map_sum id snd (commit H ts a root auth msg) = map_sum id snd (commit H ts b root auth msg)"
proof (cases "readIndex a root = []")
  case True
  then have "readIndex b root = []" using pair_readIndex[OF e ska skb] by simp
  with True show ?thesis by (simp add: commit_def agree_def)
next
  case False
  then have nb: "readIndex b root \<noteq> []" using pair_readIndex[OF e ska skb] by simp
  have fnb: "file_name (currentBranch b root)" using fn cb by simp
  have bh: "branchHead a root (currentBranch a root) = branchHead b root (currentBranch b root)"
    using pair_branchHead[OF e ska skb fn] cb by simp
  show ?thesis
    unfolding commit_effect[OF ska fn False] commit_effect[OF skb fnb nb]
    using e cb bh pair_readIndex[OF e ska skb] pair_log[OF e]
    by (simp add: agree_def same_except_update)
qed

lemma agree_write_record:
  assumes e: "same_except (HEAD_file root) a b" and ska: "repo_skeleton a root"
    and skb: "repo_skeleton b root" and fn: "file_name cur" and c: "file_name (id_rec r)"
  shows "same_except (HEAD_file root) (write_record a root cur r) (write_record b root cur r)"
  unfolding write_record_effect[OF ska fn c] write_record_effect[OF skb fn c]
  using e pair_log[OF e] by (simp add: same_except_update)

lemma agree_mergeBranch:
  fixes H :: sha256 and ts1 ts2 br :: string
  assumes e: "same_except (HEAD_file root) a b" and ska: "repo_skeleton a root"
    and skb: "repo_skeleton b root"
    and cb: "currentBranch a root = currentBranch b root" and fn: "file_name (currentBranch a root)"
    and br: "file_name br"
    and h: "branchHead a root br = [] \<or> file_name (branchHead a root br)"
  shows "agree (HEAD_file root) (mergeBranch H ts1 ts2 a root br) (mergeBranch H ts1 ts2 b root br)"
proof -
  have hb: "branchHead a root br = branchHead b root br" by (rule pair_branchHead[OF e ska skb br])
  have hc: "branchHead a root (currentBranch a root) = branchHead b root (currentBranch b root)"
    using pair_branchHead[OF e ska skb fn] cb by simp
  show ?thesis
  proof (cases "currentBranch a root = br \<or> branchHead a root br = []")
    case True
    then show ?thesis using cb hb by (auto simp: mergeBranch_def Let_def agree_def)
  next
    case False
    then have f: "file_name (branchHead a root br)" using h by simp
    have rc: "readCommit a root (branchHead a root br) = readCommit b root (branchHead b root br)"
      using pair_readCommit[OF e ska skb f] hb by simp
    have r: "mergeRecord H ts1 ts2 a root br = mergeRecord H ts1 ts2 b root br"
      using cb hb hc rc by (simp add: mergeRecord_def Let_def)
    have c: "file_name (id_rec (mergeRecord H ts1 ts2 a root br))"
      unfolding mergeRecord_id by (rule sha256String_file_name)
    show ?thesis
      using False cb hb r agree_write_record[OF e ska skb fn c]
      by (auto simp: mergeBranch_def Let_def agree_def)
  qed
qed

lemma agree_rebaseBranch:
  assumes e: "same_except (HEAD_file root) a b" and ska: "repo_skeleton a root"
    and skb: "repo_skeleton b root"
    and cb: "currentBranch a root = currentBranch b root" and fn: "file_name (currentBranch a root)"
    and br: "file_name br"
  shows "agree (HEAD_file root) (rebaseBranch a root br) (rebaseBranch b root br)"
proof -
  define cur where "cur = currentBranch a root"
  have ca: "currentBranch a root = cur" and cb': "currentBranch b root = cur"
    using cb by (simp_all add: cur_def)
  have fc: "file_name cur" using fn by (simp add: cur_def)
  have hb: "branchHead a root br = branchHead b root br" by (rule pair_branchHead[OF e ska skb br])
  show ?thesis
    unfolding rebaseBranch_def Let_def ca cb' hb
    using e
    by (simp add: agree_def updateBranchHead_file_name[OF ska fc]
        updateBranchHead_file_name[OF skb fc] same_except_update)
qed

lemma agree_createBranch:
  assumes e: "same_except (HEAD_file root) a b" and ska: "repo_skeleton a root"
    and skb: "repo_skeleton b root"
    and cb: "currentBranch a root = currentBranch b root" and fn: "file_name (currentBranch a root)"
    and n: "file_name n"
  shows "agree (HEAD_file root) (createBranch a root n) (createBranch b root n)"
proof -
  have hc: "branchHead a root (currentBranch a root) = branchHead b root (currentBranch b root)"
    using pair_branchHead[OF e ska skb fn] cb by simp
  have l: "lookup a (heads_dir root @ [n]) = lookup b (heads_dir root @ [n])"
    by (rule same_except_lookup[OF e]) simp
  have xa: "fs_exists a (slash (heads_dir root) n) \<longleftrightarrow> lookup a (heads_dir root @ [n]) \<noteq> None"
    using resolve_head[OF ska n] by (simp add: fs_exists_def)
  have xb: "fs_exists b (slash (heads_dir root) n) \<longleftrightarrow> lookup b (heads_dir root @ [n]) \<noteq> None"
    using resolve_head[OF skb n] by (simp add: fs_exists_def)
  have wa: "write_file a (slash (heads_dir root) n) c
      = Some (AList.update (heads_dir root @ [n]) (File c) a)" for c
    by (rule write_file_resolved[OF resolve_head[OF ska n] head_not_Dir[OF ska]])
  have wb: "write_file b (slash (heads_dir root) n) c
      = Some (AList.update (heads_dir root @ [n]) (File c) b)" for c
    by (rule write_file_resolved[OF resolve_head[OF skb n] head_not_Dir[OF skb]])
  show ?thesis
    using l hc e
    by (simp add: createBranch_def Let_def agree_def xa xb wa wb or_unchanged_def same_except_update)
qed

lemma tags_dir_child: "tags_dir root = (root @ [''.glite'', ''refs'']) @ [''tags'']"
  by (simp add: tags_dir_def)

lemma skeleton_refs: "repo_skeleton fs root \<Longrightarrow> dir_path fs (root @ [''.glite'', ''refs''])"
  by (simp add: repo_skeleton_def)

lemma repo_skeleton_make_tags:
  assumes "repo_skeleton fs root"
  shows "repo_skeleton (AList.update (tags_dir root) Dir fs) root"
  using assms
  by (auto simp: repo_skeleton_def dir_path_update_Dir flat_dir_def tags_dir_def objects_dir_def
      heads_dir_def HEAD_file_def index_file_def log_file_def)

lemma createTag_effect:
  assumes sk: "repo_skeleton fs root" and fn: "file_name (currentBranch fs root)"
    and t: "file_name tag"
  shows "createTag fs root tag =
    (case lookup fs (tags_dir root) of
       Some (File c) \<Rightarrow> Inl Thrown
     | r \<Rightarrow>
         if lookup fs (tags_dir root @ [tag]) \<noteq> None then
           Inl (Msg (''Tag '' @ [QUOTE] @ tag @ [QUOTE] @ '' already exists.''))
         else if branchHead fs root (currentBranch fs root) = [] then Inl (Msg ''No commits to tag.'')
         else Inr (AList.update (tags_dir root @ [tag])
                (File (branchHead fs root (currentBranch fs root) @ [NL]))
                (if r = None then AList.update (tags_dir root) Dir fs else fs)))"
proof -
  have cd: "create_directories fs (tags_dir root) =
      (case lookup fs (tags_dir root) of
         Some (File c) \<Rightarrow> None
       | Some Dir \<Rightarrow> Some fs
       | None \<Rightarrow> Some (AList.update (tags_dir root) Dir fs))"
    unfolding tags_dir_child
    by (rule create_directories_child[OF skeleton_refs[OF sk]]) (simp add: file_name_def)
  show ?thesis
  proof (cases "lookup fs (tags_dir root)")
    case None
    define fs1 where "fs1 = AList.update (tags_dir root) Dir fs"
    have sk1: "repo_skeleton fs1 root" unfolding fs1_def by (rule repo_skeleton_make_tags[OF sk])
    have dp: "dir_path fs1 (tags_dir root)"
      unfolding tags_dir_child
      by (rule dir_path_child[OF skeleton_refs[OF sk1]])
         (simp_all add: file_name_def fs1_def tags_dir_def)
    have rs: "resolve fs1 (slash (tags_dir root) tag) = Some (tags_dir root @ [tag])"
      using resolve_child[OF dp t] by (simp add: slash_file_name[OF t])
    have l: "lookup fs1 (tags_dir root @ [tag]) = lookup fs (tags_dir root @ [tag])"
      by (simp add: fs1_def)
    have cb: "currentBranch fs1 root = currentBranch fs root"
      unfolding currentBranch_skeleton[OF sk1] currentBranch_skeleton[OF sk]
      by (simp add: fs1_def tags_dir_def HEAD_file_def)
    have bh: "branchHead fs1 root (currentBranch fs root) = branchHead fs root (currentBranch fs root)"
      unfolding branchHead_file_name[OF sk1 fn] branchHead_file_name[OF sk fn]
      by (simp add: fs1_def tags_dir_def heads_dir_def)
    show ?thesis
      using None cd rs l cb bh
      by (auto simp: createTag_def Let_def fs_exists_def write_file_def or_unchanged_def
          fs1_def[symmetric])
  next
    case (Some nd)
    show ?thesis
    proof (cases nd)
      case Dir
      have dp: "dir_path fs (tags_dir root)"
        unfolding tags_dir_child
        by (rule dir_path_child[OF skeleton_refs[OF sk]])
           (use Some Dir in \<open>simp_all add: file_name_def tags_dir_def\<close>)
      have rs: "resolve fs (slash (tags_dir root) tag) = Some (tags_dir root @ [tag])"
        using resolve_child[OF dp t] by (simp add: slash_file_name[OF t])
      show ?thesis
        using Some Dir cd rs
        by (auto simp: createTag_def Let_def fs_exists_def write_file_def or_unchanged_def)
    next
      case (File c)
      then show ?thesis using Some cd by (simp add: createTag_def)
    qed
  qed
qed

lemma agree_createTag:
  assumes e: "same_except (HEAD_file root) a b" and ska: "repo_skeleton a root"
    and skb: "repo_skeleton b root"
    and cb: "currentBranch a root = currentBranch b root" and fn: "file_name (currentBranch a root)"
    and t: "file_name tag"
  shows "agree (HEAD_file root) (createTag a root tag) (createTag b root tag)"
proof -
  define cur where "cur = currentBranch a root"
  have ca: "currentBranch a root = cur" and cb': "currentBranch b root = cur"
    using cb by (simp_all add: cur_def)
  have fc: "file_name cur" using fn by (simp add: cur_def)
  have fnb: "file_name (currentBranch b root)" using fc cb' by simp
  have hc: "branchHead a root cur = branchHead b root cur"
    by (rule pair_branchHead[OF e ska skb fc])
  have l1: "lookup a (tags_dir root) = lookup b (tags_dir root)"
    by (rule same_except_lookup[OF e]) simp
  have l2: "lookup a (tags_dir root @ [tag]) = lookup b (tags_dir root @ [tag])"
    by (rule same_except_lookup[OF e]) simp
  show ?thesis
    unfolding createTag_effect[OF ska fn t] createTag_effect[OF skb fnb t] ca cb' l1 l2 hc
    using e
    by (auto simp: agree_def same_except_update split: option.splits node.splits)
qed

lemma headless_repo_skeleton: "repo_skeleton headless_repo []"
  by (simp add: repo_skeleton_def dir_path_def flat_dir_def file_name_def lookup_def
      headless_repo_def branched_repo_def objects_dir_def heads_dir_def HEAD_file_def
      index_file_def log_file_def AList.delete_eq)

text \<open>
  C10 (amended). In a repository with the skeleton whose \<open>HEAD\<close> file is missing or
  empty, or whose first line, trimmed of blanks, does not begin with \<open>ref:\<close>, the
  current branch is \<open>main\<close>; and \<open>commit\<close>, \<open>mergeBranch\<close>, \<open>rebaseBranch\<close>,
  \<open>createBranch\<close> and \<open>createTag\<close> (given file names, and for the merge a head that is
  a file name) behave as in the repository whose \<open>HEAD\<close> holds \<open>ref: main\<close>: the same
  failure, or success with filesystems that differ in \<open>HEAD\<close> at most, and for \<open>commit\<close>
  the same record.
\<close>

theorem currentBranch_default:
  fixes H :: sha256 and ts ts1 ts2 auth msg br name tag :: string
  assumes sk: "repo_skeleton fs root"
    and hd: "lookup fs (HEAD_file root) = None \<or> lookup fs (HEAD_file root) = Some (File [])
      \<or> (\<exists>c l rest. lookup fs (HEAD_file root) = Some (File c) \<and> getline NL c = Some (l, rest)
            \<and> take 4 (trim l) \<noteq> ''ref:'')"
  shows "currentBranch fs root = ''main''
    \<and> agree (HEAD_file root) (map_sum id fst (commit H ts fs root auth msg))
        (map_sum id fst (commit H ts (setCurrentBranch fs root ''main'') root auth msg))
    \<and> map_sum id snd (commit H ts fs root auth msg)
        = map_sum id snd (commit H ts (setCurrentBranch fs root ''main'') root auth msg)
    \<and> (file_name br \<and> (branchHead fs root br = [] \<or> file_name (branchHead fs root br))
        \<longrightarrow> agree (HEAD_file root) (mergeBranch H ts1 ts2 fs root br)
              (mergeBranch H ts1 ts2 (setCurrentBranch fs root ''main'') root br))
    \<and> (file_name br
        \<longrightarrow> agree (HEAD_file root) (rebaseBranch fs root br)
              (rebaseBranch (setCurrentBranch fs root ''main'') root br))
    \<and> (file_name name
        \<longrightarrow> agree (HEAD_file root) (createBranch fs root name)
              (createBranch (setCurrentBranch fs root ''main'') root name))
    \<and> (file_name tag
        \<longrightarrow> agree (HEAD_file root) (createTag fs root tag)
              (createTag (setCurrentBranch fs root ''main'') root tag))"
proof -
  let ?m = "setCurrentBranch fs root ''main''"
  have cb: "currentBranch fs root = ''main''"
    using hd unfolding currentBranch_skeleton[OF sk] by auto
  have nd: "lookup fs (HEAD_file root) \<noteq> Some Dir" using sk by (simp add: repo_skeleton_def)
  have skm: "repo_skeleton ?m root"
    unfolding setCurrentBranch_skeleton[OF sk] by (rule repo_skeleton_update_File[OF nd sk])
  have e: "same_except (HEAD_file root) fs ?m"
    unfolding setCurrentBranch_skeleton[OF sk] by (simp add: same_except_def)
  have "\<forall>c\<in>set ''main''. \<not> is_ws c" by (simp add: is_ws_def)
  from currentBranch_set[OF sk this] have cbm: "currentBranch fs root = currentBranch ?m root"
    using cb by simp
  have fn: "file_name (currentBranch fs root)" unfolding cb by (simp add: file_name_def)
  note c = agree_commit[OF e sk skm cbm fn, where H=H and ts=ts and auth=auth and msg=msg]
  have m: "file_name br \<and> (branchHead fs root br = [] \<or> file_name (branchHead fs root br))
      \<longrightarrow> agree (HEAD_file root) (mergeBranch H ts1 ts2 fs root br) (mergeBranch H ts1 ts2 ?m root br)"
    using agree_mergeBranch[OF e sk skm cbm fn] by blast
  have r: "file_name br \<longrightarrow> agree (HEAD_file root) (rebaseBranch fs root br) (rebaseBranch ?m root br)"
    using agree_rebaseBranch[OF e sk skm cbm fn] by blast
  have b: "file_name name
      \<longrightarrow> agree (HEAD_file root) (createBranch fs root name) (createBranch ?m root name)"
    using agree_createBranch[OF e sk skm cbm fn] by blast
  have t: "file_name tag \<longrightarrow> agree (HEAD_file root) (createTag fs root tag) (createTag ?m root tag)"
    using agree_createTag[OF e sk skm cbm fn] by blast
  show ?thesis using cb c m r b t by blast
qed

theorem currentBranch_default_witness:
  "repo_skeleton headless_repo []
   \<and> lookup headless_repo (HEAD_file []) = None
   \<and> currentBranch headless_repo [] = ''main''
   \<and> file_name ''feature''
   \<and> file_name (branchHead headless_repo [] ''feature'')
   \<and> \<not> isl (mergeBranch length_hash ''t1'' ''t2'' headless_repo [] ''feature'')
   \<and> agree (HEAD_file []) (mergeBranch length_hash ''t1'' ''t2'' headless_repo [] ''feature'')
        (mergeBranch length_hash ''t1'' ''t2'' (setCurrentBranch headless_repo [] ''main'') []
          ''feature'')
   \<and> agree (HEAD_file []) (rebaseBranch headless_repo [] ''feature'')
        (rebaseBranch (setCurrentBranch headless_repo [] ''main'') [] ''feature'')
   \<and> file_name ''topic''
   \<and> agree (HEAD_file []) (createBranch headless_repo [] ''topic'')
        (createBranch (setCurrentBranch headless_repo [] ''main'') [] ''topic'')
   \<and> file_name ''v1''
   \<and> agree (HEAD_file []) (createTag headless_repo [] ''v1'')
        (createTag (setCurrentBranch headless_repo [] ''main'') [] ''v1'')"
proof -
  have l: "lookup headless_repo (HEAD_file []) = None" by code_simp
  have f: "file_name ''feature''" "file_name ''topic''" "file_name ''v1''"
    by (simp_all add: file_name_def)
  have bh: "branchHead headless_repo [] ''feature'' = ''c1''" by code_simp
  have fb: "file_name (branchHead headless_repo [] ''feature'')"
    unfolding bh by (simp add: file_name_def)
  have ok: "\<not> isl (mergeBranch length_hash ''t1'' ''t2'' headless_repo [] ''feature'')"
    by code_simp
  note t = currentBranch_default[OF headless_repo_skeleton, where H=length_hash
      and ?ts1.0="''t1''" and ?ts2.0="''t2''" and br="''feature''" and name="''topic''"
      and tag="''v1''"]
  show ?thesis using t l f fb ok headless_repo_skeleton by blast
qed

text \<open>
  C10 as stated fails for a \<open>HEAD\<close> file whose first line starts with a blank: the line
  does not begin with \<open>ref:\<close>, and the current branch is \<open>dev\<close>, not \<open>main\<close>, because the
  line is trimmed before it is compared.
\<close>

theorem currentBranch_counterexample:
  "first_line indented_head_repo (HEAD_file []) = Some '' ref: dev''
   \<and> take 4 '' ref: dev'' \<noteq> ''ref:''
   \<and> currentBranch indented_head_repo [] = ''dev''"
  by code_simp

section \<open>Merging a branch whose head is a merge or revert commit\<close>

lemma merged_repo_skeleton: "repo_skeleton merged_repo []"
proof -
  let ?fs = "branched_repo ''main'' ''a.txt''"
  let ?r = "mergeRecord length_hash ''t1'' ''t2'' ?fs [] ''feature''"
  have cb: "currentBranch ?fs [] = ''main''" by code_simp
  have bh: "branchHead ?fs [] ''feature'' \<noteq> []" by code_simp
  have m: "mergeBranch length_hash ''t1'' ''t2'' ?fs [] ''feature''
      = Inr (write_record ?fs [] ''main'' ?r)"
    using cb bh by (simp add: mergeBranch_def Let_def)
  have fn: "file_name ''main''" by (simp add: file_name_def)
  have c: "file_name (id_rec ?r)" unfolding mergeRecord_id by (rule sha256String_file_name)
  have sk1: "repo_skeleton (write_record ?fs [] ''main'' ?r) []"
    by (rule write_record_skeleton[OF branched_repo_skeleton fn c])
  have nd: "lookup (write_record ?fs [] ''main'' ?r) (HEAD_file []) \<noteq> Some Dir"
    using sk1 by (simp add: repo_skeleton_def)
  have e: "merged_repo = AList.update (HEAD_file []) (File (''ref: '' @ ''feature'' @ [NL]))
      (write_record ?fs [] ''main'' ?r)"
    unfolding merged_repo_def m using setCurrentBranch_skeleton[OF sk1, of "''feature''"] by simp
  show ?thesis unfolding e by (rule repo_skeleton_update_File[OF nd sk1])
qed

text \<open>
  C3 fails on the code where the head of the other branch is a commit written by
  \<open>mergeBranch\<close> or \<open>revertCommit\<close>: its object is in the \<open>key: value\<close> layout, in which
  \<open>readCommit\<close> finds no file (it never meets the line \<open>files:\<close>), so the new merge
  record is written without any file line, whatever files the head commit lists. The
  failure condition, parent, author and message are as claimed.
\<close>

theorem merge_of_merge_commit_drops_files:
  fixes H :: sha256 and ts1 ts2 br :: string
  assumes sk: "repo_skeleton fs root" and fn: "file_name (currentBranch fs root)"
    and other: "br \<noteq> currentBranch fs root"
    and head: "branchHead fs root br = id_rec r0" "id_rec r0 \<noteq> []"
    and obj: "read_file fs (slash (objects_dir root) (id_rec r0)) = Some (colon_record r0)"
    and nl: "NL \<notin> set (id_rec r0)" "NL \<notin> set (parent r0)" "NL \<notin> set (author r0)"
      "NL \<notin> set (timestamp r0)" "NL \<notin> set (branch r0)" "single_lines r0"
    and hl: "\<forall>(p, b)\<in>set (files r0). \<not> header_like p"
  shows "\<exists>fs' cid. mergeBranch H ts1 ts2 fs root br = Inr fs'
    \<and> branchHead fs' root (currentBranch fs root) = cid
    \<and> lookup fs' (objects_dir root @ [cid]) = Some (File (
         ''id: '' @ cid @ [NL] @
         ''parent: '' @ (if branchHead fs root (currentBranch fs root) = [] then ''null''
                         else branchHead fs root (currentBranch fs root)) @ [NL] @
         ''author: merge'' @ [NL] @
         ''timestamp: '' @ ts2 @ [NL] @
         ''branch: '' @ currentBranch fs root @ [NL] @
         ''message: Merge branch '' @ [QUOTE] @ br @ [QUOTE] @ '' into '' @ [QUOTE]
            @ currentBranch fs root @ [QUOTE] @ [NL]))"
proof -
  define cur where "cur = currentBranch fs root"
  define r where "r = mergeRecord H ts1 ts2 fs root br"
  have fn': "file_name cur" using fn by (simp add: cur_def)
  have c: "file_name (id_rec r)" unfolding r_def mergeRecord_id by (rule sha256String_file_name)
  have rc: "readCommit fs root (id_rec r0)
      = readCommit_lines (read_items NL (colon_record r0)) False (empty_record\<lparr>id_rec := id_rec r0\<rparr>)"
    using obj by (simp add: readCommit_def)
  have "readCommit_lines (read_items NL (colon_record r0)) False (empty_record\<lparr>id_rec := id_rec r0\<rparr>)
      = empty_record\<lparr>id_rec := id_rec r0\<rparr>"
    using readCommit_lines_colon_record[OF nl(1-5) _ _ hl] nl(6) by (simp add: single_lines_def)
  then have f0: "files (readCommit fs root (id_rec r0)) = []"
    using rc by (simp add: empty_record_def)
  have fr: "files r = []" using f0 head(1) by (simp add: r_def mergeRecord_def Let_def)
  have m: "mergeBranch H ts1 ts2 fs root br = Inr (write_record fs root cur r)"
    using other head by (simp add: mergeBranch_def Let_def cur_def r_def)
  have bh: "branchHead (write_record fs root cur r) root cur = id_rec r"
    using branchHead_after_write[OF write_record_skeleton[OF sk fn' c] fn',
        of H "branchHead fs root br @ branchHead fs root (currentBranch fs root) @ ts1"]
      write_record_lookups(2)[OF sk fn' c]
    by (simp add: r_def mergeRecord_id)
  have cr: "colon_record r = ''id: '' @ id_rec r @ [NL] @
         ''parent: '' @ (if branchHead fs root cur = [] then ''null''
                         else branchHead fs root cur) @ [NL] @
         ''author: merge'' @ [NL] @
         ''timestamp: '' @ ts2 @ [NL] @
         ''branch: '' @ cur @ [NL] @
         ''message: Merge branch '' @ [QUOTE] @ br @ [QUOTE] @ '' into '' @ [QUOTE]
            @ cur @ [QUOTE] @ [NL]"
    using fr by (simp add: colon_record_def colon_body_def entry_lines_def r_def mergeRecord_def
        Let_def cur_def)
  have ob: "lookup (write_record fs root cur r) (objects_dir root @ [id_rec r])
      = Some (File (colon_record r))"
    by (rule write_record_lookups(1)[OF sk fn' c])
  have "lookup (write_record fs root cur r) (objects_dir root @ [id_rec r]) = Some (File (
         ''id: '' @ id_rec r @ [NL] @
         ''parent: '' @ (if branchHead fs root cur = [] then ''null''
                         else branchHead fs root cur) @ [NL] @
         ''author: merge'' @ [NL] @
         ''timestamp: '' @ ts2 @ [NL] @
         ''branch: '' @ cur @ [NL] @
         ''message: Merge branch '' @ [QUOTE] @ br @ [QUOTE] @ '' into '' @ [QUOTE]
            @ cur @ [QUOTE] @ [NL]))"
    using ob by (simp only: cr)
  then show ?thesis using m bh unfolding cur_def by blast
qed

theorem merge_of_merge_commit_drops_files_witness:
  "repo_skeleton merged_repo []
   \<and> currentBranch merged_repo [] = ''feature''
   \<and> branchHead merged_repo [] ''feature'' = ''c1''
   \<and> branchHead merged_repo [] ''main''
      = id_rec (mergeRecord length_hash ''t1'' ''t2'' (branched_repo ''main'' ''a.txt'') [] ''feature'')
   \<and> read_file merged_repo (slash (objects_dir [])
        (id_rec (mergeRecord length_hash ''t1'' ''t2'' (branched_repo ''main'' ''a.txt'') [] ''feature'')))
      = Some (colon_record
          (mergeRecord length_hash ''t1'' ''t2'' (branched_repo ''main'' ''a.txt'') [] ''feature''))
   \<and> files (mergeRecord length_hash ''t1'' ''t2'' (branched_repo ''main'' ''a.txt'') [] ''feature'')
      = [(''a.txt'', ''b1'')]
   \<and> \<not> header_like ''a.txt''
   \<and> (\<exists>fs' cid. mergeBranch length_hash ''t3'' ''t4'' merged_repo [] ''main'' = Inr fs'
        \<and> branchHead fs' [] ''feature'' = cid
        \<and> lookup fs' (objects_dir [] @ [cid]) = Some (File (
             ''id: '' @ cid @ [NL] @
             ''parent: c1'' @ [NL] @
             ''author: merge'' @ [NL] @
             ''timestamp: t4'' @ [NL] @
             ''branch: feature'' @ [NL] @
             ''message: Merge branch '' @ [QUOTE] @ ''main'' @ [QUOTE] @ '' into '' @ [QUOTE]
                @ ''feature'' @ [QUOTE] @ [NL])))"
proof -
  let ?r0 = "mergeRecord length_hash ''t1'' ''t2'' (branched_repo ''main'' ''a.txt'') [] ''feature''"
  have cb: "currentBranch merged_repo [] = ''feature''" by code_simp
  have fn: "file_name (currentBranch merged_repo [])" unfolding cb by (simp add: file_name_def)
  have ot: "''main'' \<noteq> currentBranch merged_repo []" unfolding cb by simp
  have bf: "branchHead merged_repo [] ''feature'' = ''c1''" by code_simp
  have bm: "branchHead merged_repo [] ''main'' = id_rec ?r0" by code_simp
  have ne: "id_rec ?r0 \<noteq> []" unfolding mergeRecord_id by (rule sha256String_not_Nil)
  have ob: "read_file merged_repo (slash (objects_dir []) (id_rec ?r0)) = Some (colon_record ?r0)"
    by code_simp
  have fl: "files ?r0 = [(''a.txt'', ''b1'')]" by code_simp
  have nh: "\<not> header_like ''a.txt''" by (simp add: header_like_def)
  have n1: "NL \<notin> set (id_rec ?r0)" unfolding mergeRecord_id by (rule sha256String_no_NL)
  have n2: "NL \<notin> set (parent ?r0)" "NL \<notin> set (author ?r0)" "NL \<notin> set (timestamp ?r0)"
    "NL \<notin> set (branch ?r0)" by code_simp+
  have n3: "single_lines ?r0" by code_simp
  have hl: "\<forall>(p, b)\<in>set (files ?r0). \<not> header_like p" unfolding fl using nh by simp
  from merge_of_merge_commit_drops_files[OF merged_repo_skeleton fn ot bm ne ob n1 n2 n3 hl,
      where H=length_hash and ?ts1.0="''t3''" and ?ts2.0="''t4''"]
  obtain fs' cid where
    m: "mergeBranch length_hash ''t3'' ''t4'' merged_repo [] ''main'' = Inr fs'"
      "branchHead fs' [] (currentBranch merged_repo []) = cid"
      "lookup fs' (objects_dir [] @ [cid]) = Some (File (
         ''id: '' @ cid @ [NL] @
         ''parent: '' @ (if branchHead merged_repo [] (currentBranch merged_repo []) = [] then ''null''
                         else branchHead merged_repo [] (currentBranch merged_repo [])) @ [NL] @
         ''author: merge'' @ [NL] @
         ''timestamp: '' @ ''t4'' @ [NL] @
         ''branch: '' @ currentBranch merged_repo [] @ [NL] @
         ''message: Merge branch '' @ [QUOTE] @ ''main'' @ [QUOTE] @ '' into '' @ [QUOTE]
            @ currentBranch merged_repo [] @ [QUOTE] @ [NL]))"
    by (elim exE conjE)
  have m2: "branchHead fs' [] ''feature'' = cid" using m(2) by (simp only: cb)
  have m3: "lookup fs' (objects_dir [] @ [cid]) = Some (File (
             ''id: '' @ cid @ [NL] @
             ''parent: c1'' @ [NL] @
             ''author: merge'' @ [NL] @
             ''timestamp: t4'' @ [NL] @
             ''branch: feature'' @ [NL] @
             ''message: Merge branch '' @ [QUOTE] @ ''main'' @ [QUOTE] @ '' into '' @ [QUOTE]
                @ ''feature'' @ [QUOTE] @ [NL]))"
    using m(3) by (simp add: cb bf)
  have "\<exists>fs' cid. mergeBranch length_hash ''t3'' ''t4'' merged_repo [] ''main'' = Inr fs'
        \<and> branchHead fs' [] ''feature'' = cid
        \<and> lookup fs' (objects_dir [] @ [cid]) = Some (File (
             ''id: '' @ cid @ [NL] @
             ''parent: c1'' @ [NL] @
             ''author: merge'' @ [NL] @
             ''timestamp: t4'' @ [NL] @
             ''branch: feature'' @ [NL] @
             ''message: Merge branch '' @ [QUOTE] @ ''main'' @ [QUOTE] @ '' into '' @ [QUOTE]
                @ ''feature'' @ [QUOTE] @ [NL]))"
    by (rule exI[of _ fs'], rule exI[of _ cid]) (simp only: m(1) m2 m3 simp_thms)
  then show ?thesis using merged_repo_skeleton cb bf bm ob fl nh by (intro conjI) assumption+
qed

section \<open>Access control\<close>

lemma hasWriteAccess_iff:
  assumes "session app = Some u"
  shows "hasWriteAccess app owner repo \<longleftrightarrow>
    role u = ''admin'' \<or> username u = owner
      \<or> (\<exists>cs. perms app (owner @ ''/'' @ repo) = Some cs \<and> username u \<in> cs)"
  using assms by (auto simp: hasWriteAccess_def split: option.splits)

text \<open>
  \<open>resolveRepoContext\<close> checks the access only under \<open>if (trackedRepo)\<close>: in a
  repository directory that is not in the storage under the owner and name its \<open>config\<close>
  gives, \<open>mallory\<close>, who is neither an admin nor the owner \<open>alice\<close> nor a collaborator,
  is let through for writing.
\<close>

theorem untracked_repo_not_checked:
  "map_option username (session stale_config_app) = Some ''mallory''
   \<and> map_option role (session stale_config_app) = Some ''user''
   \<and> perms stale_config_app ''alice/proj'' = None
   \<and> \<not> hasWriteAccess stale_config_app ''alice'' ''proj''
   \<and> resolveRepoContext stale_config_app None True = Inr (''alice'', ''proj'', [''work''])"
proof -
  have 1: "map_option username (session stale_config_app) = Some ''mallory''" by code_simp
  have 2: "map_option role (session stale_config_app) = Some ''user''" by code_simp
  have 3: "perms stale_config_app ''alice/proj'' = None" by (simp add: stale_config_app_def)
  have 4: "\<not> hasWriteAccess stale_config_app ''alice'' ''proj''"
    using 1 2 3 by (auto simp: hasWriteAccess_def split: option.splits)
  have 5: "resolveRepoContext stale_config_app None True = Inr (''alice'', ''proj'', [''work''])"
    by code_simp
  show ?thesis using 1 2 3 4 5 by blast
qed

subsection \<open>Commands that skip the access check\<close>

lemma staged_app_disk:
  "disk (staged_app name) =
     [([], Dir), ([''storage''], Dir), ([''storage'', ''alice''], Dir),
      ([''storage'', ''bob''], Dir), ([''storage'', ''root''], Dir), ([''work''], Dir),
      ([''storage'', ''alice'', ''proj''], Dir),
      ([''storage'', ''alice'', ''proj'', ''.glite''], Dir),
      ([''storage'', ''alice'', ''proj'', ''.glite'', ''objects''], Dir),
      ([''storage'', ''alice'', ''proj'', ''.glite'', ''refs''], Dir),
      ([''storage'', ''alice'', ''proj'', ''.glite'', ''refs'', ''heads''], Dir),
      ([''storage'', ''alice'', ''proj'', ''workspace''], Dir),
      ([''storage'', ''alice'', ''proj'', ''.glite'', ''HEAD''], File (''ref: main'' @ [NL])),
      ([''storage'', ''alice'', ''proj'', ''.glite'', ''refs'', ''heads'', ''main''], File []),
      ([''storage'', ''alice'', ''proj'', ''.glite'', ''index''],
         File (''notes.txt'' @ [TAB] @ sha256Bytes length_hash ''hello'' @ [NL])),
      ([''storage'', ''alice'', ''proj'', ''.glite'', ''config''],
         File (''name=proj'' @ [NL] @ ''owner=alice'' @ [NL] @ ''visibility=private'' @ [NL]
                 @ ''created=t0'' @ [NL])),
      ([''storage'', ''alice'', ''proj'', ''.glite'', ''log''], File []),
      ([''storage'', ''alice'', ''proj'', ''workspace'', ''notes.txt''], File ''hello''),
      ([''storage'', ''alice'', ''proj'', ''.glite'', ''objects'', sha256Bytes length_hash ''hello''],
         File ''hello'')]"
  by code_simp

lemma staged_app_skeleton:
  "repo_skeleton (disk (staged_app name)) [''storage'', ''alice'', ''proj'']"
  unfolding staged_app_disk
  by (simp add: repo_skeleton_def dir_path_def flat_dir_def file_name_def lookup_def
      objects_dir_def heads_dir_def HEAD_file_def index_file_def log_file_def)

text \<open>
  C4 fails on the code for the command \<open>commit\<close>: \<open>handleCommitCommand\<close> asks for a
  session and for \<open>.glite\<close> in the current directory and nothing else. An actor without
  write access to the repository \<open>owner/repo\<close> of the current directory (not an admin,
  not the owner, not among the collaborators), whom \<open>resolveRepoContext\<close> refuses for
  every command that goes through it, commits there: the object is written under the
  actor's name, the branch head moves to it and the index is emptied.
\<close>

theorem commit_command_skips_access_check:
  fixes H :: sha256 and ts msg :: string
  assumes s: "session app = Some u"
    and l: "locateRepo app u None = Inr (owner, repo, currentDir app, True)"
    and w: "\<not> hasWriteAccess app owner repo"
    and sk: "repo_skeleton (disk app) (currentDir app)"
    and fn: "file_name (currentBranch (disk app) (currentDir app))"
    and ne: "readIndex (disk app) (currentDir app) \<noteq> []"
    and one: "NL \<notin> set msg" "NL \<notin> set ts"
  shows "role u \<noteq> ''admin'' \<and> username u \<noteq> owner
    \<and> (\<forall>cs. perms app (owner @ ''/'' @ repo) = Some cs \<longrightarrow> username u \<notin> cs)
    \<and> resolveRepoContext app None True
        = Inl (''Error: You don't have permission to modify '' @ [QUOTE] @ owner @ ''/'' @ repo
                 @ [QUOTE] @ ''.'')
    \<and> (\<exists>fs' (r :: CommitRecord). handleCommitCommand H ts app msg
            = (''Commit created: '' @ take 12 (id_rec r) @ ''...'', app\<lparr>disk := fs'\<rparr>)
          \<and> author r = username u
          \<and> lookup fs' (objects_dir (currentDir app) @ [id_rec r]) \<noteq> None
          \<and> branchHead fs' (currentDir app) (currentBranch (disk app) (currentDir app)) = id_rec r
          \<and> readIndex fs' (currentDir app) = [])"
proof -
  have na: "role u \<noteq> ''admin''" "username u \<noteq> owner"
    "\<forall>cs. perms app (owner @ ''/'' @ repo) = Some cs \<longrightarrow> username u \<notin> cs"
    using w hasWriteAccess_iff[OF s, of owner repo] by auto
  have g: "resolveRepoContext app None True
        = Inl (''Error: You don't have permission to modify '' @ [QUOTE] @ owner @ ''/'' @ repo
                 @ [QUOTE] @ ''.'')"
    using s l w by (simp add: resolveRepoContext_def Let_def)
  have ex: "fs_exists (disk app) (currentDir app @ [''.glite''])"
    using l by (auto simp: locateRepo_def split: if_splits)
  note ce = commit_effect[OF sk fn ne, where H=H and ts=ts and auth="username u" and msg=msg]
  from commit_with_ref[OF sk fn one, where H=H and auth="username u"] ne
  obtain fs' r where c: "commit H ts (disk app) (currentDir app) (username u) msg = Inr (fs', r)"
    "lookup fs' (objects_dir (currentDir app) @ [id_rec r]) =
            Some (File (''id='' @ id_rec r @ [NL] @ commit_body (username u) ts
              (currentBranch (disk app) (currentDir app))
              (branchHead (disk app) (currentDir app) (currentBranch (disk app) (currentDir app)))
              msg (readIndex (disk app) (currentDir app))))"
    "branchHead fs' (currentDir app) (currentBranch (disk app) (currentDir app)) = id_rec r"
    "readIndex fs' (currentDir app) = []"
    by (simp only: if_False) blast
  have a: "author r = username u" using ce c(1) by auto
  have h: "handleCommitCommand H ts app msg
      = (''Commit created: '' @ take 12 (id_rec r) @ ''...'', app\<lparr>disk := fs'\<rparr>)"
    using s ex c(1) by (simp add: handleCommitCommand_def parent_path_def)
  have o: "lookup fs' (objects_dir (currentDir app) @ [id_rec r]) \<noteq> None"
    using c(2) by simp
  have e: "\<exists>fs' (r :: CommitRecord). handleCommitCommand H ts app msg
            = (''Commit created: '' @ take 12 (id_rec r) @ ''...'', app\<lparr>disk := fs'\<rparr>)
          \<and> author r = username u
          \<and> lookup fs' (objects_dir (currentDir app) @ [id_rec r]) \<noteq> None
          \<and> branchHead fs' (currentDir app) (currentBranch (disk app) (currentDir app)) = id_rec r
          \<and> readIndex fs' (currentDir app) = []"
    by (rule exI[of _ fs'], rule exI[of _ r]) (simp only: h a o c(3) c(4) simp_thms)
  show ?thesis by (intro conjI) (rule na g e)+
qed

theorem commit_command_skips_access_check_witness:
  "session (staged_app ''mallory'')
      = Some \<lparr>username = ''mallory'', passwordHash = ''h3'', role = ''user''\<rparr>
   \<and> locateRepo (staged_app ''mallory'')
        \<lparr>username = ''mallory'', passwordHash = ''h3'', role = ''user''\<rparr> None
      = Inr (''alice'', ''proj'', currentDir (staged_app ''mallory''), True)
   \<and> \<not> hasWriteAccess (staged_app ''mallory'') ''alice'' ''proj''
   \<and> getVisibility (disk (staged_app ''mallory'')) [''storage''] ''alice'' ''proj'' = ''private''
   \<and> repo_skeleton (disk (staged_app ''mallory'')) (currentDir (staged_app ''mallory''))
   \<and> currentBranch (disk (staged_app ''mallory'')) (currentDir (staged_app ''mallory'')) = ''main''
   \<and> readIndex (disk (staged_app ''mallory'')) (currentDir (staged_app ''mallory''))
      = [(''notes.txt'', sha256Bytes length_hash ''hello'')]
   \<and> fst (handleCheckoutCommand (staged_app ''mallory'') ''main'' None)
      = ''Error: You don't have permission to modify '' @ [QUOTE] @ ''alice/proj'' @ [QUOTE] @ ''.''
   \<and> (\<exists>fs' (r :: CommitRecord). handleCommitCommand length_hash ''t1'' (staged_app ''mallory'') ''spam''
            = (''Commit created: '' @ take 12 (id_rec r) @ ''...'',
               (staged_app ''mallory'')\<lparr>disk := fs'\<rparr>)
          \<and> author r = ''mallory''
          \<and> branchHead fs' [''storage'', ''alice'', ''proj''] ''main'' = id_rec r
          \<and> readIndex fs' [''storage'', ''alice'', ''proj''] = [])"
proof -
  let ?a = "staged_app ''mallory''"
  let ?u = "\<lparr>username = ''mallory'', passwordHash = ''h3'', role = ''user''\<rparr>"
  have cd: "currentDir ?a = [''storage'', ''alice'', ''proj'']" by code_simp
  have s: "session ?a = Some ?u" by code_simp
  have l: "locateRepo ?a ?u None = Inr (''alice'', ''proj'', currentDir ?a, True)" by code_simp
  have p: "perms ?a (''alice'' @ ''/'' @ ''proj'') = None"
    by (simp add: staged_app_def example_app_def Let_def)
  have w: "\<not> hasWriteAccess ?a ''alice'' ''proj''"
    using hasWriteAccess_iff[OF s, of "''alice''" "''proj''"] p by simp
  have v: "getVisibility (disk ?a) [''storage''] ''alice'' ''proj'' = ''private''" by code_simp
  have sk: "repo_skeleton (disk ?a) (currentDir ?a)" unfolding cd by (rule staged_app_skeleton)
  have cb: "currentBranch (disk ?a) (currentDir ?a) = ''main''" by code_simp
  have fn: "file_name (currentBranch (disk ?a) (currentDir ?a))"
    unfolding cb by (simp add: file_name_def)
  have ri: "readIndex (disk ?a) (currentDir ?a) = [(''notes.txt'', sha256Bytes length_hash ''hello'')]"
    by code_simp
  have ne: "readIndex (disk ?a) (currentDir ?a) \<noteq> []" unfolding ri by simp
  have one: "NL \<notin> set ''spam''" "NL \<notin> set ''t1''" by simp_all
  note t = commit_command_skips_access_check[OF s l w sk fn ne one, where H=length_hash]
  have co: "fst (handleCheckoutCommand ?a ''main'' None)
      = ''Error: You don't have permission to modify '' @ [QUOTE] @ ''alice/proj'' @ [QUOTE] @ ''.''"
    by code_simp
  from t[THEN conjunct2, THEN conjunct2, THEN conjunct2, THEN conjunct2]
  obtain fs' and r :: CommitRecord where f:
    "handleCommitCommand length_hash ''t1'' ?a ''spam''
        = (''Commit created: '' @ take 12 (id_rec r) @ ''...'', ?a\<lparr>disk := fs'\<rparr>)"
    "author r = username ?u"
    "branchHead fs' (currentDir ?a) (currentBranch (disk ?a) (currentDir ?a)) = id_rec r"
    "readIndex fs' (currentDir ?a) = []"
    by (elim exE conjE)
  have f2: "author r = ''mallory''" using f(2) by simp
  have cb2: "currentBranch (disk ?a) [''storage'', ''alice'', ''proj''] = ''main''" by code_simp
  have f3: "branchHead fs' [''storage'', ''alice'', ''proj''] ''main'' = id_rec r"
    using f(3) by (simp only: cd cb2)
  have f4: "readIndex fs' [''storage'', ''alice'', ''proj''] = []"
    using f(4) by (simp only: cd)
  have "\<exists>fs' (r :: CommitRecord). handleCommitCommand length_hash ''t1'' ?a ''spam''
            = (''Commit created: '' @ take 12 (id_rec r) @ ''...'', ?a\<lparr>disk := fs'\<rparr>)
          \<and> author r = ''mallory''
          \<and> branchHead fs' [''storage'', ''alice'', ''proj''] ''main'' = id_rec r
          \<and> readIndex fs' [''storage'', ''alice'', ''proj''] = []"
    by (rule exI[of _ fs'], rule exI[of _ r]) (simp only: f(1) f2 f3 f4 simp_thms)
  then show ?thesis using s l w v sk cb ri co by (intro conjI) assumption+
qed

section \<open>Checkout\<close>

text \<open>
  C5 fails on the code: after \<open>alice\<close> created \<open>proj\<close>, \<open>HEAD\<close> names \<open>main\<close>, whose ref
  exists; the command \<open>checkout nope proj\<close> reports success and leaves \<open>HEAD\<close> naming
  \<open>nope\<close>, a branch without a file under \<open>refs/heads\<close>.
\<close>

theorem checkout_missing_branch:
  "currentBranch (disk (example_app ''alice'' [])) [''storage'', ''alice'', ''proj''] = ''main''
   \<and> fs_exists (disk (example_app ''alice'' []))
        (slash (heads_dir [''storage'', ''alice'', ''proj'']) ''main'')
   \<and> fst (handleCheckoutCommand (example_app ''alice'' []) ''nope'' (Some ''proj''))
        = ''Switched to branch: nope''
   \<and> currentBranch (disk (snd (handleCheckoutCommand (example_app ''alice'' []) ''nope'' (Some ''proj''))))
        [''storage'', ''alice'', ''proj''] = ''nope''
   \<and> \<not> fs_exists (disk (snd (handleCheckoutCommand (example_app ''alice'' []) ''nope'' (Some ''proj''))))
        (slash (heads_dir [''storage'', ''alice'', ''proj'']) ''nope'')"
  by code_simp

section \<open>Transfer\<close>

text \<open>
  C7 fails on the code for an admin who is not the owner: \<open>handleTransferCommand\<close> looks
  for the repository under the name of the logged-in user, so an admin without a
  repository of that name gets \<open>Repository not found\<close> and nothing is moved, whoever owns
  the repository.
\<close>

theorem transfer_admin_not_owner:
  assumes "session app = Some u" and "role u = ''admin''" and "userExists app newOwner"
    and "\<not> repoExists (disk app) (storage_root app) (username u) repo"
  shows "handleTransferCommand app repo newOwner = (''Error: Repository not found.'', app)"
  using assms by (simp add: handleTransferCommand_def)

theorem transfer_admin_not_owner_witness:
  "map_option role (session (example_app ''root'' [])) = Some ''admin''
   \<and> userExists (example_app ''root'' []) ''bob''
   \<and> repoExists (disk (example_app ''root'' [])) (storage_root (example_app ''root'' [])) ''alice'' ''proj''
   \<and> \<not> repoExists (disk (example_app ''root'' [])) (storage_root (example_app ''root'' [])) ''root'' ''proj''
   \<and> handleTransferCommand (example_app ''root'' []) ''proj'' ''bob''
      = (''Error: Repository not found.'', example_app ''root'' [])"
proof -
  let ?u = "\<lparr>username = ''root'', passwordHash = ''h0'', role = ''admin''\<rparr>"
  let ?a = "example_app ''root'' []"
  have s: "session ?a = Some ?u" by code_simp
  have r: "role ?u = ''admin''" by simp
  have e: "userExists ?a ''bob''" by code_simp
  have o: "repoExists (disk ?a) (storage_root ?a) ''alice'' ''proj''" by code_simp
  have n: "\<not> repoExists (disk ?a) (storage_root ?a) (username ?u) ''proj''" by code_simp
  from transfer_admin_not_owner[OF s r e n]
  have "handleTransferCommand ?a ''proj'' ''bob'' = (''Error: Repository not found.'', ?a)" .
  then show ?thesis using s e o n by simp
qed

section \<open>Mirror push and pull\<close>

subsection \<open>Trees\<close>

lemma tree_names: "tree fs \<Longrightarrow> lookup fs k \<noteq> None \<Longrightarrow> list_all file_name k"
  by (simp add: tree_def)

lemma tree_parent: "tree fs \<Longrightarrow> lookup fs k \<noteq> None \<Longrightarrow> lookup fs (butlast k) = Some Dir"
  by (simp add: tree_def)

text \<open>A table of nodes that is closed under parents, as a function.\<close>

lemma closed_prefix:
  assumes c: "\<And>k. G k \<noteq> None \<Longrightarrow> G (butlast k) = Some Dir"
  shows "G (p @ r) \<noteq> None \<Longrightarrow> r \<noteq> [] \<Longrightarrow> G p = Some Dir"
proof (induction r rule: rev_induct)
  case Nil
  then show ?case by simp
next
  case (snoc x r)
  have b: "G (p @ r) = Some Dir" using c[OF snoc.prems(1)] by (simp add: butlast_append)
  show ?case
  proof (cases "r = []")
    case True
    then show ?thesis using b by simp
  next
    case False
    then show ?thesis using snoc.IH b by simp
  qed
qed

lemma tree_prefix:
  assumes "tree fs" and "lookup fs (p @ r) \<noteq> None" and "r \<noteq> []"
  shows "lookup fs p = Some Dir"
  using closed_prefix[of "lookup fs" p r] tree_parent[OF assms(1)] assms(2,3) by blast

lemma tree_dir_path: "tree fs \<Longrightarrow> lookup fs p = Some Dir \<Longrightarrow> dir_path fs p"
proof -
  assume t: "tree fs" and d: "lookup fs p = Some Dir"
  have "\<And>q. prefix q p \<Longrightarrow> lookup fs q = Some Dir"
  proof -
    fix q assume "prefix q p"
    then obtain r where r: "p = q @ r" by (auto simp: prefix_def)
    show "lookup fs q = Some Dir"
    proof (cases "r = []")
      case True
      then show ?thesis using d r by simp
    next
      case False
      then show ?thesis using tree_prefix[OF t, of q r] d r by simp
    qed
  qed
  then show ?thesis using tree_names[OF t, of p] d by (simp add: dir_path_def list_all_iff)
qed

lemma walk_file_names: "list_all file_name xs \<Longrightarrow> walk fs cur xs = Some q \<Longrightarrow> q = cur @ xs"
proof (induction xs arbitrary: cur)
  case Nil
  then show ?case by simp
next
  case (Cons x xs)
  have x: "x \<noteq> []" "x \<noteq> ''.''" "x \<noteq> ''..''" using Cons.prems(1) by (auto simp: file_name_def)
  from Cons.prems(2) x have "walk fs (cur @ [x]) xs = Some q" by (simp split: if_splits)
  from Cons.IH[OF _ this] Cons.prems(1) show ?case by simp
qed

lemma resolve_tree: "tree fs \<Longrightarrow> lookup fs p \<noteq> None \<Longrightarrow> resolve fs p = Some p"
proof -
  assume t: "tree fs" and e: "lookup fs p \<noteq> None"
  have "\<And>ys. strict_prefix ys p \<Longrightarrow> lookup fs ([] @ ys) = Some Dir"
  proof -
    fix ys assume "strict_prefix ys p"
    then obtain r where "p = ys @ r" "r \<noteq> []" by (auto simp: strict_prefix_def prefix_def)
    then show "lookup fs ([] @ ys) = Some Dir" using tree_prefix[OF t, of ys r] e by simp
  qed
  from walk_names[OF tree_names[OF t e] this] show ?thesis by (simp add: resolve_def)
qed

lemma fs_exists_tree:
  assumes "tree fs" and "list_all file_name p"
  shows "fs_exists fs p \<longleftrightarrow> lookup fs p \<noteq> None"
proof
  assume "fs_exists fs p"
  then obtain q where q: "resolve fs p = Some q" "lookup fs q \<noteq> None"
    by (auto simp: fs_exists_def split: option.splits)
  then have "q = p" using walk_file_names[OF assms(2), of fs "[]" q] by (simp add: resolve_def)
  then show "lookup fs p \<noteq> None" using q by simp
next
  assume "lookup fs p \<noteq> None"
  then show "fs_exists fs p" using resolve_tree[OF assms(1)] by (simp add: fs_exists_def)
qed

subsection \<open>Removing and creating\<close>

lemma lookup_filter:
  "lookup (filter (\<lambda>(k, n). P k) fs) k = (if P k then lookup fs k else None)"
  by (induction fs) (auto simp: lookup_def)

lemma remove_all_tree:
  assumes t: "tree fs" and n: "list_all file_name p"
  shows "lookup (if fs_exists fs p then remove_all fs p else fs) k
    = (if prefix p k then None else lookup fs k)"
proof (cases "lookup fs p = None")
  case True
  have "prefix p k \<Longrightarrow> lookup fs k = None"
  proof (rule ccontr)
    assume a: "prefix p k" and b: "lookup fs k \<noteq> None"
    then obtain r where r: "k = p @ r" by (auto simp: prefix_def)
    show False
    proof (cases "r = []")
      case True
      then show ?thesis using b r \<open>lookup fs p = None\<close> by simp
    next
      case False
      then show ?thesis using tree_prefix[OF t, of p r] b r \<open>lookup fs p = None\<close> by simp
    qed
  qed
  then show ?thesis using True fs_exists_tree[OF t n] by auto
next
  case False
  then have "resolve fs p = Some p" by (rule resolve_tree[OF t])
  then show ?thesis
    using False fs_exists_tree[OF t n]
    by (simp add: remove_all_def lookup_filter[where P="\<lambda>k. \<not> prefix p k"])
qed

lemma mkdirs_effect:
  "list_all file_name xs \<Longrightarrow> (\<And>ys c. prefix ys xs \<Longrightarrow> lookup fs (cur @ ys) \<noteq> Some (File c)) \<Longrightarrow>
    \<exists>fs'. mkdirs fs cur xs = Some fs' \<and>
      (\<forall>k. lookup fs' k =
         (if (\<exists>ys. prefix ys xs \<and> k = cur @ ys) \<and> lookup fs k = None then Some Dir
          else lookup fs k))"
proof (induction xs arbitrary: fs cur)
  case Nil
  have "\<And>c. lookup fs cur \<noteq> Some (File c)" using Nil.prems(2)[of "[]"] by simp
  then show ?case by (cases "lookup fs cur") (auto split: node.splits)
next
  case (Cons x xs)
  have x: "x \<noteq> []" "x \<noteq> ''.''" "x \<noteq> ''..''" using Cons.prems(1) by (auto simp: file_name_def)
  have nf: "\<And>c. lookup fs cur \<noteq> Some (File c)" using Cons.prems(2)[of "[]"] by simp
  define fs1 where "fs1 = (if lookup fs cur = None then AList.update cur Dir fs else fs)"
  have l1: "\<And>k. lookup fs1 k = (if k = cur \<and> lookup fs k = None then Some Dir else lookup fs k)"
    by (auto simp: fs1_def)
  have m: "mkdirs fs cur (x # xs) = mkdirs fs1 (cur @ [x]) xs"
    using x nf by (cases "lookup fs cur") (auto simp: fs1_def Let_def split: node.splits)
  have "\<exists>fs'. mkdirs fs1 (cur @ [x]) xs = Some fs' \<and>
      (\<forall>k. lookup fs' k =
         (if (\<exists>ys. prefix ys xs \<and> k = (cur @ [x]) @ ys) \<and> lookup fs1 k = None then Some Dir
          else lookup fs1 k))"
  proof (rule Cons.IH)
    show "list_all file_name xs" using Cons.prems(1) by simp
  next
    fix ys c assume "prefix ys xs"
    then have "prefix (x # ys) (x # xs)" by simp
    from Cons.prems(2)[OF this, of c] show "lookup fs1 ((cur @ [x]) @ ys) \<noteq> Some (File c)"
      by (simp add: l1)
  qed
  then obtain fs' where f: "mkdirs fs1 (cur @ [x]) xs = Some fs'"
    "\<And>k. lookup fs' k =
         (if (\<exists>ys. prefix ys xs \<and> k = (cur @ [x]) @ ys) \<and> lookup fs1 k = None then Some Dir
          else lookup fs1 k)" by blast
  have "\<And>k. lookup fs' k =
         (if (\<exists>ys. prefix ys (x # xs) \<and> k = cur @ ys) \<and> lookup fs k = None then Some Dir
          else lookup fs k)"
  proof -
    fix k
    have e: "(\<exists>ys. prefix ys (x # xs) \<and> k = cur @ ys)
        \<longleftrightarrow> k = cur \<or> (\<exists>ys. prefix ys xs \<and> k = (cur @ [x]) @ ys)"
      by (auto simp: prefix_Cons)
    show "lookup fs' k =
         (if (\<exists>ys. prefix ys (x # xs) \<and> k = cur @ ys) \<and> lookup fs k = None then Some Dir
          else lookup fs k)"
      unfolding f(2) l1 e by auto
  qed
  then show ?case using m f(1) by simp
qed

lemma create_directories_effect:
  assumes "list_all file_name p" and "\<And>q c. prefix q p \<Longrightarrow> lookup fs q \<noteq> Some (File c)"
  shows "\<exists>fs'. create_directories fs p = Some fs' \<and>
      (\<forall>k. lookup fs' k = (if prefix k p \<and> lookup fs k = None then Some Dir else lookup fs k))"
  using mkdirs_effect[of p fs "[]"] assms by (simp add: create_directories_def)

subsection \<open>Copying towards a table\<close>

text \<open>
  The copy loop is followed against the table \<open>G\<close> of the nodes it is to produce: the
  filesystem holds a part of \<open>G\<close> at every moment, and every step adds nodes of \<open>G\<close>.
\<close>

lemma strict_prefix_butlast: "strict_prefix q t \<Longrightarrow> prefix q (butlast t)"
proof -
  assume "strict_prefix q t"
  then obtain r where "t = q @ r" "r \<noteq> []" by (auto simp: strict_prefix_def prefix_def)
  then show ?thesis by (simp add: butlast_append)
qed

lemma closed_prefix_Dir:
  assumes par: "\<And>k. G k \<noteq> None \<Longrightarrow> G (butlast k) = Some Dir"
    and "G p \<noteq> None" and "strict_prefix q p"
  shows "G q = Some Dir"
proof -
  from assms(3) obtain r where "p = q @ r" "r \<noteq> []" by (auto simp: strict_prefix_def prefix_def)
  then show ?thesis using closed_prefix[of G q r] par assms(2) by blast
qed

lemma create_directories_within:
  assumes names: "\<And>k. G k \<noteq> None \<Longrightarrow> list_all file_name k"
    and par: "\<And>k. G k \<noteq> None \<Longrightarrow> G (butlast k) = Some Dir"
    and sub: "\<And>k. lookup cur k = None \<or> lookup cur k = G k"
    and d: "G p = Some Dir"
  shows "\<exists>fs'. create_directories cur p = Some fs' \<and>
      (\<forall>k. lookup fs' k = None \<or> lookup fs' k = G k) \<and>
      (\<forall>k. lookup cur k \<noteq> None \<longrightarrow> lookup fs' k = lookup cur k) \<and>
      (\<forall>k. prefix k p \<longrightarrow> lookup fs' k = Some Dir) \<and>
      (\<forall>k. lookup fs' k \<noteq> None \<longrightarrow> lookup cur k \<noteq> None \<or> prefix k p)"
proof -
  have g: "\<And>q. prefix q p \<Longrightarrow> G q = Some Dir"
  proof -
    fix q assume "prefix q p"
    then have "q = p \<or> strict_prefix q p" by (auto simp: strict_prefix_def)
    then show "G q = Some Dir" using d closed_prefix_Dir[of G p q] par by auto
  qed
  have nf: "\<And>q c. prefix q p \<Longrightarrow> lookup cur q \<noteq> Some (File c)"
  proof -
    fix q c assume "prefix q p"
    from g[OF this] sub[of q] show "lookup cur q \<noteq> Some (File c)" by auto
  qed
  have n: "list_all file_name p" using names[of p] d by simp
  from create_directories_effect[OF n nf] obtain fs' where
    f: "create_directories cur p = Some fs'"
      "\<And>k. lookup fs' k = (if prefix k p \<and> lookup cur k = None then Some Dir else lookup cur k)"
    by blast
  have 1: "\<forall>k. lookup fs' k = None \<or> lookup fs' k = G k" using f(2) g sub by auto
  have 2: "\<forall>k. lookup cur k \<noteq> None \<longrightarrow> lookup fs' k = lookup cur k" using f(2) by auto
  have 3: "\<forall>k. prefix k p \<longrightarrow> lookup fs' k = Some Dir"
  proof (intro allI impI)
    fix k assume k: "prefix k p"
    show "lookup fs' k = Some Dir" using f(2)[of k] g[OF k] sub[of k] k by auto
  qed
  have 4: "\<forall>k. lookup fs' k \<noteq> None \<longrightarrow> lookup cur k \<noteq> None \<or> prefix k p"
    using f(2) by (auto split: if_splits)
  show ?thesis using f(1) 1 2 3 4 by blast
qed

lemma copy_file_within:
  assumes names: "\<And>k. G k \<noteq> None \<Longrightarrow> list_all file_name k"
    and par: "\<And>k. G k \<noteq> None \<Longrightarrow> G (butlast k) = Some Dir"
    and sub: "\<And>k. lookup cur k = None \<or> lookup cur k = G k"
    and src: "\<And>q. prefix q f \<Longrightarrow> lookup cur q \<noteq> None"
    and gf: "G f = Some (File c)" and gt: "G t = Some (File c)"
    and parent: "\<And>q. prefix q (butlast t) \<Longrightarrow> lookup cur q = Some Dir"
  shows "copy_file cur f t True = Some (AList.update t (File c) cur)"
proof -
  have "\<And>ys. strict_prefix ys f \<Longrightarrow> lookup cur ([] @ ys) = Some Dir"
  proof -
    fix ys assume s: "strict_prefix ys f"
    then have "lookup cur ys \<noteq> None" using src[of ys] by (simp add: strict_prefix_def)
    then have "lookup cur ys = G ys" using sub[of ys] by auto
    then show "lookup cur ([] @ ys) = Some Dir"
      using closed_prefix_Dir[of G f ys] par gf s by simp
  qed
  from walk_names[OF _ this] names[of f] gf
  have rf: "resolve cur f = Some f" by (simp add: resolve_def)
  have "\<And>ys. strict_prefix ys t \<Longrightarrow> lookup cur ([] @ ys) = Some Dir"
    using parent[OF strict_prefix_butlast] by simp
  from walk_names[OF _ this] names[of t] gt
  have rt: "resolve cur t = Some t" by (simp add: resolve_def)
  have lf: "lookup cur f = Some (File c)" using src[of f] sub[of f] gf by auto
  have lt: "lookup cur t = None \<or> lookup cur t = Some (File c)" using sub[of t] gt by auto
  show ?thesis using rf rt lf lt by (auto simp: copy_file_def)
qed

lemma copy_entries_within:
  assumes names: "\<And>k. G k \<noteq> None \<Longrightarrow> list_all file_name k"
    and par: "\<And>k. G k \<noteq> None \<Longrightarrow> G (butlast k) = Some Dir"
  shows "(\<And>k. lookup cur k = None \<or> lookup cur k = G k) \<Longrightarrow>
    (\<And>rel n q. (rel, n) \<in> set es \<Longrightarrow> prefix q (from @ rel) \<Longrightarrow> lookup cur q \<noteq> None) \<Longrightarrow>
    (\<And>rel n. (rel, n) \<in> set es \<Longrightarrow> G (from @ rel) = Some n \<and> G (to @ rel) = Some n) \<Longrightarrow>
    \<exists>fs'. copy_entries cur from to es = (fs', True) \<and>
      (\<forall>k. lookup fs' k = None \<or> lookup fs' k = G k) \<and>
      (\<forall>k. lookup cur k \<noteq> None \<longrightarrow> lookup fs' k = lookup cur k) \<and>
      (\<forall>rel n. (rel, n) \<in> set es \<longrightarrow> lookup fs' (to @ rel) = Some n)"
proof (induction es arbitrary: cur)
  case Nil
  then show ?case by simp
next
  case (Cons e es)
  obtain rel n where e: "e = (rel, n)" by (cases e)
  have g: "G (from @ rel) = Some n" "G (to @ rel) = Some n" using Cons.prems(3)[of rel n] e by auto
  have step: "\<exists>fs1. (copy_entries cur from to (e # es) = copy_entries fs1 from to es) \<and>
      (\<forall>k. lookup fs1 k = None \<or> lookup fs1 k = G k) \<and>
      (\<forall>k. lookup cur k \<noteq> None \<longrightarrow> lookup fs1 k = lookup cur k) \<and>
      lookup fs1 (to @ rel) = Some n"
  proof (cases n)
    case Dir
    from create_directories_within[of G cur "to @ rel", OF names par Cons.prems(1)] g(2) Dir
    obtain fs1 where f: "create_directories cur (to @ rel) = Some fs1"
      "\<forall>k. lookup fs1 k = None \<or> lookup fs1 k = G k"
      "\<forall>k. lookup cur k \<noteq> None \<longrightarrow> lookup fs1 k = lookup cur k"
      "\<forall>k. prefix k (to @ rel) \<longrightarrow> lookup fs1 k = Some Dir" by blast
    have "copy_entries cur from to (e # es) = copy_entries fs1 from to es"
      using e Dir f(1) by simp
    moreover have "lookup fs1 (to @ rel) = Some n" using f(4) Dir by simp
    ultimately show ?thesis using f(2,3) by blast
  next
    case (File c)
    have gp: "G (butlast (to @ rel)) = Some Dir" using par[of "to @ rel"] g(2) by simp
    from create_directories_within[of G cur "butlast (to @ rel)", OF names par Cons.prems(1) gp]
    obtain fs1 where f: "create_directories cur (butlast (to @ rel)) = Some fs1"
      "\<forall>k. lookup fs1 k = None \<or> lookup fs1 k = G k"
      "\<forall>k. lookup cur k \<noteq> None \<longrightarrow> lookup fs1 k = lookup cur k"
      "\<forall>k. prefix k (butlast (to @ rel)) \<longrightarrow> lookup fs1 k = Some Dir" by blast
    have src: "\<And>q. prefix q (from @ rel) \<Longrightarrow> lookup fs1 q \<noteq> None"
      using Cons.prems(2)[of rel n] e f(3) by auto
    have cf: "copy_file fs1 (from @ rel) (to @ rel) True
        = Some (AList.update (to @ rel) (File c) fs1)"
      by (rule copy_file_within[of G, OF names par]) (use f(2,4) src g File in auto)
    define fs2 where "fs2 = AList.update (to @ rel) (File c) fs1"
    have "copy_entries cur from to (e # es) = copy_entries fs2 from to es"
      using e File f(1) cf by (simp add: fs2_def parent_path_def)
    moreover have "\<forall>k. lookup fs2 k = None \<or> lookup fs2 k = G k"
      using f(2) g(2) File by (auto simp: fs2_def)
    moreover have "\<forall>k. lookup cur k \<noteq> None \<longrightarrow> lookup fs2 k = lookup cur k"
    proof (intro allI impI)
      fix k assume k: "lookup cur k \<noteq> None"
      then have a: "lookup fs1 k = lookup cur k" using f(3) by simp
      have "k = to @ rel \<Longrightarrow> lookup cur k = Some (File c)"
        using k Cons.prems(1)[of k] g(2) File by auto
      then show "lookup fs2 k = lookup cur k" using a by (auto simp: fs2_def)
    qed
    moreover have "lookup fs2 (to @ rel) = Some n" using File by (simp add: fs2_def)
    ultimately show ?thesis by blast
  qed
  then obtain fs1 where s: "copy_entries cur from to (e # es) = copy_entries fs1 from to es"
      "\<And>k. lookup fs1 k = None \<or> lookup fs1 k = G k"
      "\<And>k. lookup cur k \<noteq> None \<Longrightarrow> lookup fs1 k = lookup cur k"
      "lookup fs1 (to @ rel) = Some n" by blast
  have "\<exists>fs'. copy_entries fs1 from to es = (fs', True) \<and>
      (\<forall>k. lookup fs' k = None \<or> lookup fs' k = G k) \<and>
      (\<forall>k. lookup fs1 k \<noteq> None \<longrightarrow> lookup fs' k = lookup fs1 k) \<and>
      (\<forall>rel n. (rel, n) \<in> set es \<longrightarrow> lookup fs' (to @ rel) = Some n)"
  proof (rule Cons.IH)
    fix k show "lookup fs1 k = None \<or> lookup fs1 k = G k" by (rule s(2))
  next
    fix rel' n' q assume "(rel', n') \<in> set es" "prefix q (from @ rel')"
    then have "lookup cur q \<noteq> None" using Cons.prems(2)[of rel' n' q] by simp
    then show "lookup fs1 q \<noteq> None" using s(3) by simp
  next
    fix rel' n' assume "(rel', n') \<in> set es"
    then show "G (from @ rel') = Some n' \<and> G (to @ rel') = Some n'"
      using Cons.prems(3)[of rel' n'] by simp
  qed
  then obtain fs' where r: "copy_entries fs1 from to es = (fs', True)"
      "\<And>k. lookup fs' k = None \<or> lookup fs' k = G k"
      "\<And>k. lookup fs1 k \<noteq> None \<Longrightarrow> lookup fs' k = lookup fs1 k"
      "\<And>rel n. (rel, n) \<in> set es \<Longrightarrow> lookup fs' (to @ rel) = Some n" by blast
  have m: "\<And>k. lookup cur k \<noteq> None \<Longrightarrow> lookup fs' k = lookup cur k"
    using s(3) r(3) by simp
  have "\<And>rel' n'. (rel', n') \<in> set (e # es) \<Longrightarrow> lookup fs' (to @ rel') = Some n'"
  proof -
    fix rel' n' assume "(rel', n') \<in> set (e # es)"
    then consider "rel' = rel \<and> n' = n" | "(rel', n') \<in> set es" using e by auto
    then show "lookup fs' (to @ rel') = Some n'"
    proof cases
      case 1
      then show ?thesis using s(4) r(3)[of "to @ rel"] by simp
    next
      case 2
      then show ?thesis by (rule r(4))
    qed
  qed
  then show ?case using s(1) r(1,2) m by simp
qed

lemma entries_below_set:
  "(rel, n) \<in> set (entries_below fs q) \<longleftrightarrow> rel \<noteq> [] \<and> lookup fs (q @ rel) = Some n"
proof
  assume "(rel, n) \<in> set (entries_below fs q)"
  then obtain k where k: "strict_prefix q k" "lookup fs k = Some n" "rel = drop (length q) k"
    by (auto simp: entries_below_def)
  from k(1) obtain r where "k = q @ r" "r \<noteq> []" by (auto simp: strict_prefix_def prefix_def)
  then show "rel \<noteq> [] \<and> lookup fs (q @ rel) = Some n" using k by simp
next
  assume a: "rel \<noteq> [] \<and> lookup fs (q @ rel) = Some n"
  then have "(q @ rel, n) \<in> set fs" by (simp add: lookup_def map_of_SomeD)
  moreover have "strict_prefix q (q @ rel)" using a by (simp add: strict_prefix_def)
  ultimately have "(q @ rel, n) \<in> set (filter (\<lambda>(k, n). strict_prefix q k \<and> lookup fs k = Some n) fs)"
    using a by simp
  then have "(\<lambda>(k, n). (drop (length q) k, n)) (q @ rel, n) \<in> set (entries_below fs q)"
    unfolding entries_below_def set_map by (rule imageI)
  then show "(rel, n) \<in> set (entries_below fs q)" by simp
qed

subsection \<open>\<open>copyDirectory\<close> in a tree\<close>

lemma apart_below: "apart a b \<Longrightarrow> \<not> prefix b (a @ r) \<and> \<not> prefix (a @ r) b"
  by (auto simp: apart_def prefix_append dest: append_prefixD)

lemma apart_not_Nil: "apart a b \<Longrightarrow> a \<noteq> [] \<and> b \<noteq> []"
  by (auto simp: apart_def)

lemma apart_sym: "apart a b \<Longrightarrow> apart b a"
  by (simp add: apart_def)

lemma apart_append: "apart a b \<Longrightarrow> apart (a @ r) (b @ s)"
  using apart_below[of a b r] apart_below[of b a s]
  by (auto simp: apart_def dest: append_prefixD)

lemma apart_siblings: "x \<noteq> y \<Longrightarrow> apart (p @ x # r) (p @ y # s)"
  by (simp add: apart_def)

lemma list_all_prefix: "prefix q p \<Longrightarrow> list_all P p \<Longrightarrow> list_all P q"
  by (auto simp: prefix_def)

lemma copyDirectory_tree:
  assumes t: "tree fs" and nt: "list_all file_name to" and d: "lookup fs from = Some Dir"
    and ap: "apart from to"
    and way: "\<And>q c. strict_prefix q to \<Longrightarrow> lookup fs q \<noteq> Some (File c)"
  shows "\<exists>fs'. copyDirectory fs from to = (fs', True) \<and> tree fs' \<and>
    (\<forall>k. lookup fs' k =
       (if prefix to k then lookup fs (from @ drop (length to) k)
        else if prefix k to then Some Dir else lookup fs k))"
proof -
  define G where "G k = (if prefix to k then lookup fs (from @ drop (length to) k)
        else if prefix k to then Some Dir else lookup fs k)" for k
  have nf: "list_all file_name from" using tree_names[OF t, of "from"] d by simp
  have to_ne: "to \<noteq> []" using apart_not_Nil[OF ap] by simp
  have G_under: "\<And>r. G (to @ r) = lookup fs (from @ r)" by (simp add: G_def)
  have G_pre: "\<And>k. strict_prefix k to \<Longrightarrow> G k = Some Dir"
    by (auto simp: G_def strict_prefix_def)
  have G_out: "\<And>k. \<not> prefix to k \<Longrightarrow> \<not> prefix k to \<Longrightarrow> G k = lookup fs k"
    by (simp add: G_def)
  have G_from: "\<And>r. G (from @ r) = lookup fs (from @ r)"
    using apart_below[OF ap] by (simp add: G_def)
  have Gnames: "\<And>k. G k \<noteq> None \<Longrightarrow> list_all file_name k"
  proof -
    fix k assume g: "G k \<noteq> None"
    show "list_all file_name k"
    proof (cases "prefix to k")
      case True
      then obtain r where r: "k = to @ r" by (auto simp: prefix_def)
      then have "lookup fs (from @ r) \<noteq> None" using g G_under by simp
      from tree_names[OF t this] show ?thesis using r nt by simp
    next
      case False
      show ?thesis
      proof (cases "prefix k to")
        case True
        then show ?thesis using nt by (rule list_all_prefix)
      next
        case no: False
        then show ?thesis using g G_out[OF False no] tree_names[OF t, of k] by simp
      qed
    qed
  qed
  have Gpar: "\<And>k. G k \<noteq> None \<Longrightarrow> G (butlast k) = Some Dir"
  proof -
    fix k assume g: "G k \<noteq> None"
    show "G (butlast k) = Some Dir"
    proof (cases "prefix to k")
      case True
      then obtain r where r: "k = to @ r" by (auto simp: prefix_def)
      show ?thesis
      proof (cases "r = []")
        case True
        have "strict_prefix (butlast to) to"
          using to_ne by (metis append_butlast_last_id not_Cons_self2 prefixI prefix_order.less_le
              self_append_conv)
        then show ?thesis using G_pre r True by simp
      next
        case False
        have "lookup fs (from @ r) \<noteq> None" using g G_under r by simp
        from tree_parent[OF t this] have "lookup fs (from @ butlast r) = Some Dir"
          using False by (simp add: butlast_append)
        then show ?thesis using r False G_under[of "butlast r"] by (simp add: butlast_append)
      qed
    next
      case False
      have nb: "\<not> prefix to (butlast k)"
        using False by (meson prefix_order.trans prefixeq_butlast)
      show ?thesis
      proof (cases "prefix (butlast k) to")
        case True
        then show ?thesis using nb G_pre[of "butlast k"] by (simp add: strict_prefix_def)
      next
        case no: False
        then have "\<not> prefix k to" by (meson prefix_order.trans prefixeq_butlast)
        then have "lookup fs k \<noteq> None" using g G_out[OF False] by simp
        from tree_parent[OF t this] show ?thesis using G_out[OF nb no] by simp
      qed
    qed
  qed
  have ef: "fs_exists fs from" using fs_exists_tree[OF t nf] d by simp
  define fs1 where "fs1 = (if fs_exists fs to then remove_all fs to else fs)"
  have l1: "\<And>k. lookup fs1 k = (if prefix to k then None else lookup fs k)"
    unfolding fs1_def by (rule remove_all_tree[OF t nt])
  have "\<And>q c. prefix q to \<Longrightarrow> lookup fs1 q \<noteq> Some (File c)"
  proof -
    fix q c assume "prefix q to"
    then have "q = to \<or> strict_prefix q to" by (auto simp: strict_prefix_def)
    then show "lookup fs1 q \<noteq> Some (File c)"
      using way[of q c] by (auto simp: l1)
  qed
  from create_directories_effect[OF nt this] obtain fs2 where
    c2: "create_directories fs1 to = Some fs2" and
    l2: "\<And>k. lookup fs2 k
      = (if prefix k to \<and> lookup fs1 k = None then Some Dir else lookup fs1 k)" by blast
  have l2_to: "lookup fs2 to = Some Dir" by (simp add: l2 l1)
  have l2_under: "\<And>r. r \<noteq> [] \<Longrightarrow> lookup fs2 (to @ r) = None" by (simp add: l2 l1)
  have l2_out: "\<And>k. \<not> prefix to k \<Longrightarrow> lookup fs2 k = G k"
  proof -
    fix k assume n: "\<not> prefix to k"
    show "lookup fs2 k = G k"
    proof (cases "prefix k to")
      case True
      then have s: "strict_prefix k to" using n by (auto simp: strict_prefix_def)
      have "lookup fs k = None \<or> lookup fs k = Some Dir"
        using way[OF s] by (cases "lookup fs k") (auto intro: node.exhaust)
      then show ?thesis using G_pre[OF s] n True by (auto simp: l2 l1)
    next
      case False
      then show ?thesis using n G_out[OF n False] by (simp add: l2 l1)
    qed
  qed
  have sub2: "\<And>k. lookup fs2 k = None \<or> lookup fs2 k = G k"
  proof -
    fix k
    show "lookup fs2 k = None \<or> lookup fs2 k = G k"
    proof (cases "prefix to k")
      case True
      then obtain r where r: "k = to @ r" by (auto simp: prefix_def)
      show ?thesis
      proof (cases "r = []")
        case True
        then show ?thesis using r l2_to G_under[of "[]"] d by simp
      next
        case False
        then show ?thesis using r l2_under by simp
      qed
    next
      case False
      then show ?thesis using l2_out by simp
    qed
  qed
  have l2_from: "\<And>r. lookup fs2 (from @ r) = lookup fs (from @ r)"
    using l2_out apart_below[OF ap] G_from by simp
  have present: "\<And>r q. lookup fs (from @ r) \<noteq> None \<Longrightarrow> prefix q (from @ r)
      \<Longrightarrow> lookup fs2 q \<noteq> None"
  proof -
    fix r q assume e: "lookup fs (from @ r) \<noteq> None" and p: "prefix q (from @ r)"
    have "\<not> prefix to q" using p apart_below[OF ap, of r] by (meson prefix_order.trans)
    then have a: "lookup fs2 q = G q" by (rule l2_out)
    have g: "G (from @ r) \<noteq> None" using e G_from by simp
    from p have "q = from @ r \<or> strict_prefix q (from @ r)" by (auto simp: strict_prefix_def)
    then show "lookup fs2 q \<noteq> None"
      using a g closed_prefix_Dir[of G "from @ r" q] Gpar by auto
  qed
  have "\<And>ys. strict_prefix ys from \<Longrightarrow> lookup fs2 ([] @ ys) = Some Dir"
  proof -
    fix ys assume s: "strict_prefix ys from"
    then have "\<not> prefix to ys" using ap by (auto simp: apart_def strict_prefix_def)
    then have "lookup fs2 ys = G ys" by (rule l2_out)
    moreover have "G from \<noteq> None" using G_from[of "[]"] d by simp
    ultimately show "lookup fs2 ([] @ ys) = Some Dir"
      using closed_prefix_Dir[of G "from" ys] Gpar s by simp
  qed
  from walk_names[OF nf this] have rf: "resolve fs2 from = Some from" by (simp add: resolve_def)
  have lf: "lookup fs2 from = Some Dir" using l2_from[of "[]"] d by simp
  define es where "es = entries_below fs2 from"
  have es: "\<And>rel n. (rel, n) \<in> set es \<longleftrightarrow> rel \<noteq> [] \<and> lookup fs (from @ rel) = Some n"
    by (simp add: es_def entries_below_set l2_from)
  have "\<exists>fs'. copy_entries fs2 from to es = (fs', True) \<and>
      (\<forall>k. lookup fs' k = None \<or> lookup fs' k = G k) \<and>
      (\<forall>k. lookup fs2 k \<noteq> None \<longrightarrow> lookup fs' k = lookup fs2 k) \<and>
      (\<forall>rel n. (rel, n) \<in> set es \<longrightarrow> lookup fs' (to @ rel) = Some n)"
  proof (rule copy_entries_within[of G, OF Gnames Gpar sub2])
    fix rel n q assume "(rel, n) \<in> set es" "prefix q (from @ rel)"
    then show "lookup fs2 q \<noteq> None" using present[of rel q] es by simp
  next
    fix rel n assume "(rel, n) \<in> set es"
    then show "G (from @ rel) = Some n \<and> G (to @ rel) = Some n"
      using es G_from G_under by simp
  qed
  then obtain fs' where
    ce: "copy_entries fs2 from to es = (fs', True)" and
    sub: "\<And>k. lookup fs' k = None \<or> lookup fs' k = G k" and
    mono: "\<And>k. lookup fs2 k \<noteq> None \<Longrightarrow> lookup fs' k = lookup fs2 k" and
    cover: "\<And>rel n. (rel, n) \<in> set es \<Longrightarrow> lookup fs' (to @ rel) = Some n" by blast
  have eq: "\<And>k. lookup fs' k = G k"
  proof -
    fix k
    show "lookup fs' k = G k"
    proof (cases "G k")
      case None
      then show ?thesis using sub[of k] by auto
    next
      case (Some n)
      show ?thesis
      proof (cases "prefix to k")
        case True
        then obtain r where r: "k = to @ r" by (auto simp: prefix_def)
        show ?thesis
        proof (cases "r = []")
          case True
          then show ?thesis using r mono[of to] l2_to G_under[of "[]"] d by simp
        next
          case False
          have "lookup fs (from @ r) = Some n" using Some r G_under by simp
          then have "(r, n) \<in> set es" using False es by simp
          from cover[OF this] show ?thesis using Some r by simp
        qed
      next
        case False
        then have "lookup fs2 k = G k" by (rule l2_out)
        then show ?thesis using mono[of k] Some by simp
      qed
    qed
  qed
  have "copyDirectory fs from to = (fs', True)"
    using ef c2 rf lf ce by (simp add: copyDirectory_def fs1_def[symmetric] es_def)
  moreover have "tree fs'"
  proof -
    have "G [] = Some Dir" using to_ne G_pre[of "[]"] by (simp add: strict_prefix_def)
    then show ?thesis using Gnames Gpar by (simp add: tree_def eq)
  qed
  ultimately show ?thesis using eq by (simp add: G_def)
qed

subsection \<open>Push and pull in a tree\<close>

lemma creatable_names: "creatable fs p \<Longrightarrow> list_all file_name p"
  by (simp add: creatable_def)

lemma creatable_prefix: "creatable fs p \<Longrightarrow> prefix q p \<Longrightarrow> lookup fs q \<noteq> Some (File c)"
proof -
  assume c: "creatable fs p" and p: "prefix q p"
  then have "q \<in> set (prefixes p)" by (simp add: in_set_prefixes)
  then have "case lookup fs q of Some (File c) \<Rightarrow> False | _ \<Rightarrow> True"
    using c by (simp add: creatable_def list_all_iff)
  then show ?thesis by auto
qed

lemma strict_prefix_snoc_iff: "strict_prefix q (p @ [x]) \<longleftrightarrow> prefix q p"
  by (auto simp: strict_prefix_def)

lemma tree_table:
  assumes "lookup fs [] = Some Dir"
    and "list_all (\<lambda>(k, n). list_all file_name k \<and> lookup fs (butlast k) = Some Dir) fs"
  shows "tree fs"
proof -
  have "\<And>k. lookup fs k \<noteq> None \<Longrightarrow> list_all file_name k \<and> lookup fs (butlast k) = Some Dir"
  proof -
    fix k assume "lookup fs k \<noteq> None"
    then obtain n where "(k, n) \<in> set fs" by (auto simp: lookup_def dest: map_of_SomeD)
    then show "list_all file_name k \<and> lookup fs (butlast k) = Some Dir"
      using assms(2) by (auto simp: list_all_iff)
  qed
  then show ?thesis using assms(1) by (simp add: tree_def)
qed

text \<open>The start of \<open>push\<close>: the remote is removed and made again, an empty directory.\<close>

lemma recreate_tree:
  assumes t: "tree fs" and c: "creatable fs p" and ne: "p \<noteq> []"
  shows "\<exists>fs'. create_directories (if fs_exists fs p then remove_all fs p else fs) p = Some fs'
    \<and> tree fs' \<and> creatable fs' p
    \<and> (\<forall>r. r \<noteq> [] \<longrightarrow> lookup fs' (p @ r) = None)
    \<and> (\<forall>k. prefix k p \<longrightarrow> lookup fs' k = Some Dir)
    \<and> (\<forall>k. \<not> prefix p k \<and> \<not> prefix k p \<longrightarrow> lookup fs' k = lookup fs k)"
proof -
  have np: "list_all file_name p" using c by (rule creatable_names)
  define fs1 where "fs1 = (if fs_exists fs p then remove_all fs p else fs)"
  have l1: "\<And>k. lookup fs1 k = (if prefix p k then None else lookup fs k)"
    unfolding fs1_def by (rule remove_all_tree[OF t np])
  have "\<And>q c. prefix q p \<Longrightarrow> lookup fs1 q \<noteq> Some (File c)"
    using creatable_prefix[OF c] by (simp add: l1)
  from create_directories_effect[OF np this] obtain fs2 where
    c2: "create_directories fs1 p = Some fs2" and
    l2: "\<And>k. lookup fs2 k
      = (if prefix k p \<and> lookup fs1 k = None then Some Dir else lookup fs1 k)" by blast
  have pre: "\<And>k. prefix k p \<Longrightarrow> lookup fs2 k = Some Dir"
  proof -
    fix k assume k: "prefix k p"
    have "lookup fs k = None \<or> lookup fs k = Some Dir"
      using creatable_prefix[OF c k] by (cases "lookup fs k") (auto intro: node.exhaust)
    then show "lookup fs2 k = Some Dir" using k by (auto simp: l2 l1)
  qed
  have under: "\<And>r. r \<noteq> [] \<Longrightarrow> lookup fs2 (p @ r) = None" by (simp add: l2 l1)
  have out: "\<And>k. \<not> prefix p k \<Longrightarrow> \<not> prefix k p \<Longrightarrow> lookup fs2 k = lookup fs k"
    by (simp add: l2 l1)
  have cases: "\<And>k. lookup fs2 k \<noteq> None \<Longrightarrow> prefix k p \<or> (\<not> prefix p k \<and> lookup fs k \<noteq> None)"
    by (auto simp: l2 l1 split: if_splits)
  have "tree fs2"
  proof -
    have "\<And>k. lookup fs2 k \<noteq> None
        \<Longrightarrow> list_all file_name k \<and> lookup fs2 (butlast k) = Some Dir"
    proof -
      fix k assume e: "lookup fs2 k \<noteq> None"
      show "list_all file_name k \<and> lookup fs2 (butlast k) = Some Dir"
      proof (cases "prefix k p")
        case True
        then have "prefix (butlast k) p" by (meson prefix_order.trans prefixeq_butlast)
        then show ?thesis using pre True np by (auto intro: list_all_prefix)
      next
        case False
        then have k: "\<not> prefix p k" "lookup fs k \<noteq> None" using cases[OF e] by auto
        have nb: "\<not> prefix p (butlast k)"
          using k(1) by (meson prefix_order.trans prefixeq_butlast)
        have "lookup fs2 (butlast k) = Some Dir"
        proof (cases "prefix (butlast k) p")
          case True
          then show ?thesis by (rule pre)
        next
          case no: False
          then show ?thesis using out[OF nb no] tree_parent[OF t k(2)] by simp
        qed
        then show ?thesis using tree_names[OF t k(2)] by simp
      qed
    qed
    moreover have "lookup fs2 [] = Some Dir" using pre[of "[]"] by simp
    ultimately show ?thesis by (simp add: tree_def)
  qed
  moreover have "creatable fs2 p" using np pre by (simp add: creatable_def list_all_iff)
  ultimately show ?thesis using c2 under pre out unfolding fs1_def by blast
qed

lemma copyDirectory_effect:
  assumes t: "tree fs" and nt: "list_all file_name to" and d: "lookup fs from = Some Dir"
    and ap: "apart from to"
    and way: "\<And>q c. strict_prefix q to \<Longrightarrow> lookup fs q \<noteq> Some (File c)"
  shows "\<exists>fs'. copyDirectory fs from to = (fs', True) \<and> tree fs'
    \<and> (\<forall>r. lookup fs' (to @ r) = lookup fs (from @ r))
    \<and> (\<forall>k. strict_prefix k to \<longrightarrow> lookup fs' k = Some Dir)
    \<and> (\<forall>k. \<not> prefix to k \<and> \<not> prefix k to \<longrightarrow> lookup fs' k = lookup fs k)"
proof -
  from copyDirectory_tree[OF t nt d ap way] obtain fs' where
    f: "copyDirectory fs from to = (fs', True)" "tree fs'"
      "\<And>k. lookup fs' k =
       (if prefix to k then lookup fs (from @ drop (length to) k)
        else if prefix k to then Some Dir else lookup fs k)" by blast
  have "\<forall>r. lookup fs' (to @ r) = lookup fs (from @ r)" by (simp add: f(3))
  moreover have "\<forall>k. strict_prefix k to \<longrightarrow> lookup fs' k = Some Dir"
    by (auto simp: f(3) strict_prefix_def)
  moreover have "\<forall>k. \<not> prefix to k \<and> \<not> prefix k to \<longrightarrow> lookup fs' k = lookup fs k"
    by (simp add: f(3))
  ultimately show ?thesis using f(1,2) by blast
qed

text \<open>The two copies that \<open>push\<close> and \<open>pull\<close> share.\<close>

lemma copy_repo_tree:
  assumes t: "tree fs" and c: "creatable fs T"
    and g: "lookup fs (S @ [''.glite'']) = Some Dir"
    and w: "lookup fs (S @ [''workspace'']) = Some Dir"
    and ap: "apart S T"
  shows "\<exists>fs'. copy_repo fs S T = (fs', None) \<and> tree fs'
    \<and> (\<forall>r. lookup fs' (T @ ''.glite'' # r) = lookup fs (S @ ''.glite'' # r))
    \<and> (\<forall>r. lookup fs' (T @ ''workspace'' # r) = lookup fs (S @ ''workspace'' # r))
    \<and> (\<forall>k. prefix k T \<longrightarrow> lookup fs' k = Some Dir)
    \<and> (\<forall>k. \<not> prefix T k \<and> \<not> prefix k T \<longrightarrow> lookup fs' k = lookup fs k)"
proof -
  have nT: "list_all file_name T" using c by (rule creatable_names)
  have fn: "file_name ''.glite''" "file_name ''workspace''" by (simp_all add: file_name_def)
  have "\<exists>fs1. copyDirectory fs (S @ [''.glite'']) (T @ [''.glite'']) = (fs1, True) \<and> tree fs1
    \<and> (\<forall>r. lookup fs1 ((T @ [''.glite'']) @ r) = lookup fs ((S @ [''.glite'']) @ r))
    \<and> (\<forall>k. strict_prefix k (T @ [''.glite'']) \<longrightarrow> lookup fs1 k = Some Dir)
    \<and> (\<forall>k. \<not> prefix (T @ [''.glite'']) k \<and> \<not> prefix k (T @ [''.glite''])
          \<longrightarrow> lookup fs1 k = lookup fs k)"
  proof (rule copyDirectory_effect[OF t _ g])
    show "list_all file_name (T @ [''.glite''])" using nT fn by simp
    show "apart (S @ [''.glite'']) (T @ [''.glite''])" using ap by (rule apart_append)
    fix q c assume "strict_prefix q (T @ [''.glite''])"
    then have "prefix q T" by (simp add: strict_prefix_snoc_iff)
    then show "lookup fs q \<noteq> Some (File c)" by (rule creatable_prefix[OF c])
  qed
  then obtain fs1 where
    c1: "copyDirectory fs (S @ [''.glite'']) (T @ [''.glite'']) = (fs1, True)" and
    t1: "tree fs1" and
    u1: "\<And>r. lookup fs1 (T @ ''.glite'' # r) = lookup fs (S @ ''.glite'' # r)" and
    p1: "\<And>k. prefix k T \<Longrightarrow> lookup fs1 k = Some Dir" and
    o1: "\<And>k. \<not> prefix (T @ [''.glite'']) k \<Longrightarrow> \<not> prefix k (T @ [''.glite''])
          \<Longrightarrow> lookup fs1 k = lookup fs k"
    by (auto simp: strict_prefix_snoc_iff)
  have w1: "lookup fs1 (S @ [''workspace'']) = Some Dir"
  proof -
    have "apart (S @ [''workspace'']) (T @ [''.glite''])" using ap by (rule apart_append)
    then show ?thesis using o1[of "S @ [''workspace'']"] w by (simp add: apart_def)
  qed
  have "\<exists>fs2. copyDirectory fs1 (S @ [''workspace'']) (T @ [''workspace'']) = (fs2, True)
    \<and> tree fs2
    \<and> (\<forall>r. lookup fs2 ((T @ [''workspace'']) @ r) = lookup fs1 ((S @ [''workspace'']) @ r))
    \<and> (\<forall>k. strict_prefix k (T @ [''workspace'']) \<longrightarrow> lookup fs2 k = Some Dir)
    \<and> (\<forall>k. \<not> prefix (T @ [''workspace'']) k \<and> \<not> prefix k (T @ [''workspace''])
          \<longrightarrow> lookup fs2 k = lookup fs1 k)"
  proof (rule copyDirectory_effect[OF t1 _ w1])
    show "list_all file_name (T @ [''workspace''])" using nT fn by simp
    show "apart (S @ [''workspace'']) (T @ [''workspace''])" using ap by (rule apart_append)
    fix q c assume "strict_prefix q (T @ [''workspace''])"
    then have "prefix q T" by (simp add: strict_prefix_snoc_iff)
    then show "lookup fs1 q \<noteq> Some (File c)" using p1 by simp
  qed
  then obtain fs2 where
    c2: "copyDirectory fs1 (S @ [''workspace'']) (T @ [''workspace'']) = (fs2, True)" and
    t2: "tree fs2" and
    u2: "\<And>r. lookup fs2 (T @ ''workspace'' # r) = lookup fs1 (S @ ''workspace'' # r)" and
    p2: "\<And>k. prefix k T \<Longrightarrow> lookup fs2 k = Some Dir" and
    o2: "\<And>k. \<not> prefix (T @ [''workspace'']) k \<Longrightarrow> \<not> prefix k (T @ [''workspace''])
          \<Longrightarrow> lookup fs2 k = lookup fs1 k"
    by (auto simp: strict_prefix_snoc_iff)
  have r: "copy_repo fs S T = (fs2, None)" using c1 c2 by (simp add: copy_repo_def)
  have a: "\<And>r. lookup fs2 (T @ ''.glite'' # r) = lookup fs (S @ ''.glite'' # r)"
  proof -
    fix r
    have "apart (T @ ''.glite'' # r) (T @ ''workspace'' # [])" by (rule apart_siblings) simp
    then have "lookup fs2 (T @ ''.glite'' # r) = lookup fs1 (T @ ''.glite'' # r)"
      using o2[of "T @ ''.glite'' # r"] by (simp add: apart_def)
    then show "lookup fs2 (T @ ''.glite'' # r) = lookup fs (S @ ''.glite'' # r)"
      using u1 by simp
  qed
  have b: "\<And>r. lookup fs2 (T @ ''workspace'' # r) = lookup fs (S @ ''workspace'' # r)"
  proof -
    fix r
    have "apart (S @ ''workspace'' # r) (T @ [''.glite''])"
      using apart_append[OF ap, of "''workspace'' # r" "[''.glite'']"] by simp
    then have "lookup fs1 (S @ ''workspace'' # r) = lookup fs (S @ ''workspace'' # r)"
      using o1[of "S @ ''workspace'' # r"] by (simp add: apart_def)
    then show "lookup fs2 (T @ ''workspace'' # r) = lookup fs (S @ ''workspace'' # r)"
      using u2 by simp
  qed
  have o: "\<And>k. \<not> prefix T k \<Longrightarrow> \<not> prefix k T \<Longrightarrow> lookup fs2 k = lookup fs k"
  proof -
    fix k assume k: "\<not> prefix T k" "\<not> prefix k T"
    have n: "\<And>x. \<not> prefix (T @ [x]) k \<and> \<not> prefix k (T @ [x])"
      using k by (auto simp: prefix_snoc dest: append_prefixD)
    show "lookup fs2 k = lookup fs k" using o2[of k] o1[of k] n by simp
  qed
  show ?thesis using r t2 a b p2 o by blast
qed

lemma push_tree:
  assumes t: "tree fs" and c: "creatable fs R"
    and g: "lookup fs (L @ [''.glite'']) = Some Dir"
    and w: "lookup fs (L @ [''workspace'']) = Some Dir"
    and ap: "apart L R"
  shows "\<exists>fs'. push fs L R = (fs', None) \<and> tree fs'
    \<and> (\<forall>r. lookup fs' (R @ ''.glite'' # r) = lookup fs (L @ ''.glite'' # r))
    \<and> (\<forall>r. lookup fs' (R @ ''workspace'' # r) = lookup fs (L @ ''workspace'' # r))
    \<and> (\<forall>k. prefix k R \<longrightarrow> lookup fs' k = Some Dir)
    \<and> (\<forall>k. \<not> prefix R k \<and> \<not> prefix k R \<longrightarrow> lookup fs' k = lookup fs k)"
proof -
  have ne: "R \<noteq> []" using apart_not_Nil[OF ap] by simp
  from recreate_tree[OF t c ne] obtain fs1 where
    c1: "create_directories (if fs_exists fs R then remove_all fs R else fs) R = Some fs1" and
    t1: "tree fs1" and cr1: "creatable fs1 R" and
    o1: "\<And>k. \<not> prefix R k \<Longrightarrow> \<not> prefix k R \<Longrightarrow> lookup fs1 k = lookup fs k" by blast
  have out: "\<And>r. lookup fs1 (L @ r) = lookup fs (L @ r)"
    using o1 apart_below[OF ap] by simp
  have g1: "lookup fs1 (L @ [''.glite'']) = Some Dir" using out g by simp
  have w1: "lookup fs1 (L @ [''workspace'']) = Some Dir" using out w by simp
  from copy_repo_tree[OF t1 cr1 g1 w1 ap] obtain fs2 where
    r: "copy_repo fs1 L R = (fs2, None)" "tree fs2"
      "\<And>r. lookup fs2 (R @ ''.glite'' # r) = lookup fs1 (L @ ''.glite'' # r)"
      "\<And>r. lookup fs2 (R @ ''workspace'' # r) = lookup fs1 (L @ ''workspace'' # r)"
      "\<And>k. prefix k R \<Longrightarrow> lookup fs2 k = Some Dir"
      "\<And>k. \<not> prefix R k \<Longrightarrow> \<not> prefix k R \<Longrightarrow> lookup fs2 k = lookup fs1 k" by blast
  have "push fs L R = (fs2, None)" using c1 r(1) by (simp add: push_def)
  moreover have "\<forall>k. \<not> prefix R k \<and> \<not> prefix k R \<longrightarrow> lookup fs2 k = lookup fs k"
    using r(6) o1 by simp
  ultimately show ?thesis using r(2,5) r(3,4) out by simp
qed

lemma mirror_disk_tree: "tree mirror_disk"
  by (rule tree_table) (simp_all add: mirror_disk_def lookup_def file_name_def)

text \<open>
  C8. The mirror is a sibling directory tree: the repository \<open>L\<close>, the remote \<open>R\<close> and
  the place \<open>L'\<close> of the copy lie apart, in a filesystem that is a tree, with no regular
  file in the place of \<open>R\<close> or \<open>L'\<close> or above them. Then \<open>push\<close> of \<open>L\<close> to \<open>R\<close> and
  \<open>pull\<close> from \<open>R\<close> into \<open>L'\<close> both return true, and below \<open>.glite/objects\<close>,
  \<open>.glite/refs/heads\<close>, \<open>.glite/refs/tags\<close> and \<open>workspace\<close> the copy \<open>L'\<close> holds at
  every relative path what \<open>L\<close> holds there: the same names, directories, and files
  with the same bytes; \<open>L\<close> itself is as before. On every filesystem, \<open>pull\<close> from a
  remote that does not exist fails with \<open>Remote not found.\<close> and changes nothing.
\<close>

theorem push_pull_round_trip:
  assumes "tree fs"
    and "lookup fs (L @ [''.glite'']) = Some Dir" and "lookup fs (workspace_dir L) = Some Dir"
    and "creatable fs R" and "creatable fs L'"
    and "apart L R" and "apart L L'" and "apart R L'"
  shows "\<exists>fs1 fs2. push fs L R = (fs1, None) \<and> pull fs1 L' R = (fs2, None)
    \<and> (\<forall>p. lookup fs2 (objects_dir L' @ p) = lookup fs (objects_dir L @ p))
    \<and> (\<forall>p. lookup fs2 (heads_dir L' @ p) = lookup fs (heads_dir L @ p))
    \<and> (\<forall>p. lookup fs2 (tags_dir L' @ p) = lookup fs (tags_dir L @ p))
    \<and> (\<forall>p. lookup fs2 (workspace_dir L' @ p) = lookup fs (workspace_dir L @ p))
    \<and> (\<forall>p. lookup fs2 (L @ p) = lookup fs (L @ p))
    \<and> (\<forall>d l r. \<not> fs_exists d r \<longrightarrow> pull d l r = (d, Some (Msg ''Remote not found.'')))"
proof -
  have w: "lookup fs (L @ [''workspace'']) = Some Dir"
    using assms(3) by (simp add: workspace_dir_def)
  from push_tree[OF assms(1,4,2) w assms(6)] obtain fs1 where
    p: "push fs L R = (fs1, None)" "tree fs1"
      "\<And>r. lookup fs1 (R @ ''.glite'' # r) = lookup fs (L @ ''.glite'' # r)"
      "\<And>r. lookup fs1 (R @ ''workspace'' # r) = lookup fs (L @ ''workspace'' # r)"
      "\<And>k. prefix k R \<Longrightarrow> lookup fs1 k = Some Dir"
      "\<And>k. \<not> prefix R k \<Longrightarrow> \<not> prefix k R \<Longrightarrow> lookup fs1 k = lookup fs k" by blast
  have nL': "list_all file_name L'" using assms(5) by (rule creatable_names)
  have nR: "list_all file_name R" using assms(4) by (rule creatable_names)
  have c1: "creatable fs1 L'"
  proof -
    have "\<And>q. prefix q L' \<Longrightarrow> (case lookup fs1 q of Some (File c) \<Rightarrow> False | _ \<Rightarrow> True)"
    proof -
      fix q assume q: "prefix q L'"
      have n: "\<not> prefix R q" using q assms(8) by (meson apart_def prefix_order.trans)
      show "case lookup fs1 q of Some (File c) \<Rightarrow> False | _ \<Rightarrow> True"
      proof (cases "prefix q R")
        case True
        then show ?thesis using p(5) by simp
      next
        case False
        have "\<And>c. lookup fs q \<noteq> Some (File c)" using creatable_prefix[OF assms(5) q] .
        then show ?thesis using p(6)[OF n False] by (auto split: option.splits node.splits)
      qed
    qed
    then show ?thesis using nL' by (simp add: creatable_def list_all_iff in_set_prefixes)
  qed
  have g1: "lookup fs1 (R @ [''.glite'']) = Some Dir" using p(3)[of "[]"] assms(2) by simp
  have w1: "lookup fs1 (R @ [''workspace'']) = Some Dir" using p(4)[of "[]"] w by simp
  from copy_repo_tree[OF p(2) c1 g1 w1 assms(8)] obtain fs2 where
    r: "copy_repo fs1 R L' = (fs2, None)"
      "\<And>r. lookup fs2 (L' @ ''.glite'' # r) = lookup fs1 (R @ ''.glite'' # r)"
      "\<And>r. lookup fs2 (L' @ ''workspace'' # r) = lookup fs1 (R @ ''workspace'' # r)"
      "\<And>k. \<not> prefix L' k \<Longrightarrow> \<not> prefix k L' \<Longrightarrow> lookup fs2 k = lookup fs1 k" by blast
  have "fs_exists fs1 R" using fs_exists_tree[OF p(2) nR] p(5)[of R] by simp
  then have pl: "pull fs1 L' R = (fs2, None)" using r(1) by (simp add: pull_def)
  have gl: "\<And>q. lookup fs2 (L' @ ''.glite'' # q) = lookup fs (L @ ''.glite'' # q)"
    using r(2) p(3) by simp
  have ws: "\<And>q. lookup fs2 (L' @ ''workspace'' # q) = lookup fs (L @ ''workspace'' # q)"
    using r(3) p(4) by simp
  have same: "\<And>q. lookup fs2 (L @ q) = lookup fs (L @ q)"
    using r(4) p(6) apart_below[OF assms(7)] apart_below[OF assms(6)] by simp
  have 1: "\<forall>q. lookup fs2 (objects_dir L' @ q) = lookup fs (objects_dir L @ q)"
    using gl by (simp add: objects_dir_def)
  have 2: "\<forall>q. lookup fs2 (heads_dir L' @ q) = lookup fs (heads_dir L @ q)"
    using gl by (simp add: heads_dir_def)
  have 3: "\<forall>q. lookup fs2 (tags_dir L' @ q) = lookup fs (tags_dir L @ q)"
    using gl by (simp add: tags_dir_def)
  have 4: "\<forall>q. lookup fs2 (workspace_dir L' @ q) = lookup fs (workspace_dir L @ q)"
    using ws by (simp add: workspace_dir_def)
  have 5: "\<forall>d l r. \<not> fs_exists d r \<longrightarrow> pull d l r = (d, Some (Msg ''Remote not found.''))"
    by (simp add: pull_def)
  show ?thesis using p(1) pl 1 2 3 4 same 5 by blast
qed

theorem push_pull_round_trip_witness:
  "tree mirror_disk
   \<and> lookup mirror_disk ([''storage'', ''alice'', ''proj''] @ [''.glite'']) = Some Dir
   \<and> lookup mirror_disk (workspace_dir [''storage'', ''alice'', ''proj'']) = Some Dir
   \<and> creatable mirror_disk [''storage'', ''_remotes'', ''alice'', ''proj'']
   \<and> creatable mirror_disk [''storage'', ''bob'', ''proj'']
   \<and> apart [''storage'', ''alice'', ''proj''] [''storage'', ''_remotes'', ''alice'', ''proj'']
   \<and> apart [''storage'', ''alice'', ''proj''] [''storage'', ''bob'', ''proj'']
   \<and> apart [''storage'', ''_remotes'', ''alice'', ''proj''] [''storage'', ''bob'', ''proj'']
   \<and> (\<exists>fs1 fs2.
        push mirror_disk [''storage'', ''alice'', ''proj'']
          [''storage'', ''_remotes'', ''alice'', ''proj''] = (fs1, None)
      \<and> pull fs1 [''storage'', ''bob'', ''proj'']
          [''storage'', ''_remotes'', ''alice'', ''proj''] = (fs2, None)
      \<and> lookup fs2 (heads_dir [''storage'', ''bob'', ''proj''] @ [''main''])
          = Some (File (''c1'' @ [NL]))
      \<and> lookup fs2 (workspace_dir [''storage'', ''bob'', ''proj''] @ [''notes.txt''])
          = Some (File ''hello''))"
proof -
  let ?L = "[''storage'', ''alice'', ''proj'']"
  let ?R = "[''storage'', ''_remotes'', ''alice'', ''proj'']"
  let ?C = "[''storage'', ''bob'', ''proj'']"
  have g: "lookup mirror_disk (?L @ [''.glite'']) = Some Dir" by code_simp
  have w: "lookup mirror_disk (workspace_dir ?L) = Some Dir" by code_simp
  have cR: "creatable mirror_disk ?R" by code_simp
  have cC: "creatable mirror_disk ?C" by code_simp
  have a1: "apart ?L ?R" by (simp add: apart_def)
  have a2: "apart ?L ?C" by (simp add: apart_def)
  have a3: "apart ?R ?C" by (simp add: apart_def)
  have h: "lookup mirror_disk (heads_dir ?L @ [''main'']) = Some (File (''c1'' @ [NL]))"
    by code_simp
  have n: "lookup mirror_disk (workspace_dir ?L @ [''notes.txt'']) = Some (File ''hello'')"
    by code_simp
  from push_pull_round_trip[OF mirror_disk_tree g w cR cC a1 a2 a3] obtain fs1 fs2 where
    r: "push mirror_disk ?L ?R = (fs1, None)" "pull fs1 ?C ?R = (fs2, None)"
      "\<forall>p. lookup fs2 (heads_dir ?C @ p) = lookup mirror_disk (heads_dir ?L @ p)"
      "\<forall>p. lookup fs2 (workspace_dir ?C @ p) = lookup mirror_disk (workspace_dir ?L @ p)"
    by blast
  have "lookup fs2 (heads_dir ?C @ [''main'']) = Some (File (''c1'' @ [NL]))"
    using r(3) h by simp
  moreover have "lookup fs2 (workspace_dir ?C @ [''notes.txt'']) = Some (File ''hello'')"
    using r(4) n by simp
  ultimately have "\<exists>fs1 fs2. push mirror_disk ?L ?R = (fs1, None)
      \<and> pull fs1 ?C ?R = (fs2, None)
      \<and> lookup fs2 (heads_dir ?C @ [''main'']) = Some (File (''c1'' @ [NL]))
      \<and> lookup fs2 (workspace_dir ?C @ [''notes.txt'']) = Some (File ''hello'')"
    using r(1,2) by blast
  then show ?thesis using mirror_disk_tree g w cR cC a1 a2 a3 by blast
qed

end
